theory Spec2Isabelle
  imports Main
begin

section \<open>JavaScript string operations used by the release core\<close>

text \<open>
  Strings are lists of characters. The helpers below are the built-in operations of
  JavaScript strings that the release core calls, each named after the method it models.
\<close>

definition startsWith :: "string \<Rightarrow> string \<Rightarrow> bool" where
  \<comment> \<open>\<^verbatim>\<open>s.startsWith(p)\<close>\<close>
  "startsWith s p = (take (length p) s = p)"

fun str_includes :: "string \<Rightarrow> string \<Rightarrow> bool" where
  \<comment> \<open>\<^verbatim>\<open>s.includes(sub)\<close>: \<open>sub\<close> occurs at some position of \<open>s\<close>\<close>
  "str_includes [] sub = (sub = [])"
| "str_includes (c # s) sub = (startsWith (c # s) sub \<or> str_includes s sub)"

definition js_space :: "char \<Rightarrow> bool" where
  \<comment> \<open>the white space that \<^verbatim>\<open>trim\<close> removes, within the 8-bit range: tab, line feed,
      vertical tab, form feed, carriage return, space, no-break space\<close>
  "js_space c = (c \<in> set [CHR 0x09, CHR 0x0A, CHR 0x0B, CHR 0x0C, CHR 0x0D, CHR 0x20, CHR 0xA0])"

definition trim :: "string \<Rightarrow> string" where
  \<comment> \<open>\<^verbatim>\<open>s.trim()\<close>\<close>
  "trim s = rev (dropWhile js_space (rev (dropWhile js_space s)))"

definition blank :: "string \<Rightarrow> bool" where
  \<comment> \<open>\<^verbatim>\<open>!s.trim()\<close>: the trimmed string is empty, hence falsy\<close>
  "blank s = (trim s = [])"

fun split1 :: "char \<Rightarrow> string \<Rightarrow> string \<Rightarrow> string list" where
  \<comment> \<open>\<^verbatim>\<open>s.split(c)\<close> for a separator of one character; the second argument collects the
      current piece in reverse\<close>
  "split1 c acc [] = [rev acc]"
| "split1 c acc (x # xs) = (if x = c then rev acc # split1 c [] xs else split1 c (x # acc) xs)"

fun split2 :: "char \<Rightarrow> char \<Rightarrow> string \<Rightarrow> string \<Rightarrow> string list" where
  \<comment> \<open>\<^verbatim>\<open>s.split(ab)\<close> for a separator of two characters\<close>
  "split2 a b acc (x # y # xs) =
     (if x = a \<and> y = b then rev acc # split2 a b [] xs else split2 a b (x # acc) (y # xs))"
| "split2 a b acc xs = [rev acc @ xs]"

definition splitLines :: "string \<Rightarrow> string list" where
  \<comment> \<open>\<^verbatim>\<open>s.split('\n')\<close>: the separator is the line feed\<close>
  "splitLines s = split1 (CHR 0x0A) [] s"

definition splitBackslashN :: "string \<Rightarrow> string list" where
  \<comment> \<open>\<^verbatim>\<open>s.split('\\n')\<close>: the source escapes the backslash, so the separator is the two
      characters backslash and \<open>n\<close>, not the line feed\<close>
  "splitBackslashN s = split2 (CHR 0x5C) (CHR ''n'') [] s"

definition splitDots :: "string \<Rightarrow> string list" where
  \<comment> \<open>\<^verbatim>\<open>s.split('.')\<close>\<close>
  "splitDots s = split1 (CHR ''.'') [] s"

definition indexOf :: "string \<Rightarrow> char \<Rightarrow> int" where
  \<comment> \<open>\<^verbatim>\<open>s.indexOf(c)\<close>: the first position of \<open>c\<close>, or \<open>-1\<close>\<close>
  "indexOf s c = (if c \<in> set s then int (length (takeWhile (\<lambda>x. x \<noteq> c) s)) else - 1)"

definition substring :: "string \<Rightarrow> int \<Rightarrow> string" where
  \<comment> \<open>\<^verbatim>\<open>s.substring(i)\<close>: a negative start counts as zero\<close>
  "substring s i = drop (nat i) s"

definition basename :: "string \<Rightarrow> string" where
  \<comment> \<open>\<^verbatim>\<open>path.basename(p)\<close> of Node's POSIX \<^verbatim>\<open>path\<close> module: trailing slashes are dropped,
      then the part after the last slash is returned\<close>
  "basename p =
     rev (takeWhile (\<lambda>c. c \<noteq> CHR ''/'') (dropWhile (\<lambda>c. c = CHR ''/'') (rev p)))"

subsection \<open>Numbers and comparison\<close>

definition digit :: "char \<Rightarrow> bool" where
  \<comment> \<open>\<^verbatim>\<open>\d\<close>\<close>
  "digit c = (c \<in> set ''0123456789'')"

definition digitValue :: "char \<Rightarrow> nat" where
  "digitValue c = of_char c - 48"

definition numberOf :: "string \<Rightarrow> nat" where
  \<comment> \<open>\<^verbatim>\<open>Number(s)\<close> for a string of decimal digits. JavaScript numbers are doubles; they
      agree with the naturals, also under \<open>+ 1\<close> and printing, on every integer below
      \<open>2 ^ 53\<close> only. The model stands for the code on counters in that range, and a
      statement that depends on the value of a counter is made for that range.\<close>
  "numberOf s = foldl (\<lambda>n c. 10 * n + digitValue c) 0 s"

definition digitChar :: "nat \<Rightarrow> char" where
  "digitChar d = char_of (48 + d)"

fun toString :: "nat \<Rightarrow> string" where
  \<comment> \<open>\<^verbatim>\<open>n.toString()\<close>, also the text of \<open>n\<close> in a template string: decimal digits\<close>
  "toString n = (if n < 10 then [digitChar n] else toString (n div 10) @ [digitChar (n mod 10)])"

declare toString.simps [simp del]

definition slice_last2 :: "string \<Rightarrow> string" where
  \<comment> \<open>\<^verbatim>\<open>s.slice(-2)\<close>: the last two characters, or all of a shorter string\<close>
  "slice_last2 s = drop (length s - 2) s"

definition padStart2 :: "string \<Rightarrow> string" where
  \<comment> \<open>\<^verbatim>\<open>s.padStart(2, '0')\<close>\<close>
  "padStart2 s = replicate (2 - length s) (CHR ''0'') @ s"

fun js_less :: "string \<Rightarrow> string \<Rightarrow> bool" where
  \<comment> \<open>\<^verbatim>\<open>a < b\<close> on strings: lexicographic by character code, a proper prefix is smaller\<close>
  "js_less [] [] = False"
| "js_less [] (y # ys) = True"
| "js_less (x # xs) [] = False"
| "js_less (x # xs) (y # ys) =
     ((of_char x :: nat) < of_char y \<or> (x = y \<and> js_less xs ys))"

subsection \<open>Regular expressions of the source, as matchers\<close>

definition wordChar :: "char \<Rightarrow> bool" where
  \<comment> \<open>\<^verbatim>\<open>\w\<close>\<close>
  "wordChar c = (c \<in> set ''abcdefghijklmnopqrstuvwxyzABCDEFGHIJKLMNOPQRSTUVWXYZ0123456789_'')"

definition lineTerminator :: "char \<Rightarrow> bool" where
  \<comment> \<open>the characters that \<^verbatim>\<open>.\<close> does not match, within the 8-bit range\<close>
  "lineTerminator c = (c = CHR 0x0A \<or> c = CHR 0x0D)"

fun dotPlusThen :: "string \<Rightarrow> string \<Rightarrow> bool" where
  \<comment> \<open>\<^verbatim>\<open>^.+lit\<close>: one or more characters other than line terminators, then the literal\<close>
  "dotPlusThen lit [] = False"
| "dotPlusThen lit (c # s) = (\<not> lineTerminator c \<and> (startsWith s lit \<or> dotPlusThen lit s))"

definition scopeMatch :: "string \<Rightarrow> string option" where
  \<comment> \<open>\<^verbatim>\<open>message.match(/^\w+\(([^)]+)\):/)\<close>: the captured scope, or \<open>None\<close> for no match\<close>
  "scopeMatch message =
     (let type = takeWhile wordChar message;
          rest = dropWhile wordChar message
      in if type \<noteq> [] \<and> startsWith rest ''(''
         then (let scope = takeWhile (\<lambda>c. c \<noteq> CHR '')'') (tl rest);
                   after = dropWhile (\<lambda>c. c \<noteq> CHR '')'') (tl rest)
               in if scope \<noteq> [] \<and> startsWith after ''):'' then Some scope else None)
         else None)"

definition typeMatch :: "string \<Rightarrow> string \<Rightarrow> bool" where
  \<comment> \<open>\<^verbatim>\<open>message.match(/^type(\(.+\))?:/)\<close> for a literal \<open>type\<close>\<close>
  "typeMatch type message =
     (startsWith message type \<and>
      (let rest = drop (length type) message
       in startsWith rest '':'' \<or> (startsWith rest ''('' \<and> dotPlusThen ''):'' (tl rest))))"

definition calverPrefix :: "string \<Rightarrow> (string \<times> string) option" where
  \<comment> \<open>the greedy match of \<^verbatim>\<open>\d{2}\.\d{2}\.\d+(\.\d+)?\<close> at the start of a string: the
      matched text and what follows it\<close>
  "calverPrefix s =
     (case s of
        y1 # y2 # dot1 # m1 # m2 # dot2 # rest \<Rightarrow>
          (if digit y1 \<and> digit y2 \<and> dot1 = CHR ''.'' \<and> digit m1 \<and> digit m2 \<and> dot2 = CHR ''.''
              \<and> takeWhile digit rest \<noteq> []
           then (let third = takeWhile digit rest;
                     after = dropWhile digit rest
                 in if startsWith after ''.'' \<and> takeWhile digit (tl after) \<noteq> []
                    then Some ([y1, y2, dot1, m1, m2, dot2] @ third @ ''.''
                                 @ takeWhile digit (tl after),
                               dropWhile digit (tl after))
                    else Some ([y1, y2, dot1, m1, m2, dot2] @ third, after))
           else None)
      | _ \<Rightarrow> None)"

definition calverMatch :: "string \<Rightarrow> bool" where
  \<comment> \<open>\<^verbatim>\<open>s.match(/^\d{2}\.\d{2}\.\d+(\.\d+)?$/)\<close>; the \<^verbatim>\<open>$\<close> of JavaScript only matches at
      the very end of the string\<close>
  "calverMatch s = (case calverPrefix s of Some (v, rest) \<Rightarrow> rest = [] | None \<Rightarrow> False)"

definition rootTagMatch :: "string \<Rightarrow> bool" where
  \<comment> \<open>\<^verbatim>\<open>tag.match(/^v-\d{2}\.\d{2}\.\d+(\.\d+)?$/)\<close>\<close>
  "rootTagMatch tag = (startsWith tag ''v-'' \<and> calverMatch (drop 2 tag))"

definition versionOfTag :: "string \<Rightarrow> string option" where
  \<comment> \<open>\<^verbatim>\<open>tag.match(/^v-(\d{2}\.\d{2}\.\d+(?:\.\d+)?)-/)\<close>: the captured version\<close>
  "versionOfTag tag =
     (if startsWith tag ''v-''
      then (case calverPrefix (drop 2 tag) of
              Some (v, rest) \<Rightarrow> if startsWith rest ''-'' then Some v else None
            | None \<Rightarrow> None)
      else None)"

section \<open>Configuration\<close>

text \<open>
  A plugin definition is a plain identifier, a pair of identifier and plugin options, or an
  object with a \<open>path\<close> field (\<^verbatim>\<open>PluginDefinition\<close>). The payload of plugin options is
  never consulted by the release core and is left out.
\<close>

datatype PluginDefinition =
    PluginName string
  | PluginTuple string
  | PluginObject string

text \<open>
  The options object (\<^verbatim>\<open>CalverReleaseOptions\<close>, and \<^verbatim>\<open>Config\<close> after merging): every
  field may be absent. Only the fields read by the decision engine are kept.
\<close>

record Options =
  versionFormat :: "string option"
  plugins :: "PluginDefinition list option"
  autoUpdateMonth :: "bool option"
  dryRun :: "bool option"

definition defaults :: Options where
  \<comment> \<open>the \<^verbatim>\<open>defaults\<close> object of \<^verbatim>\<open>getConfig\<close>\<close>
  "defaults = \<lparr>
     versionFormat = None,
     plugins = Some [
       PluginName ''@calver-release/commit-analyzer'',
       PluginName ''@calver-release/release-notes-generator'',
       PluginName ''@calver-release/changelog'',
       PluginName ''@calver-release/npm'',
       PluginName ''@calver-release/git'',
       PluginName ''@calver-release/gitlab'',
       PluginName ''@calver-release/github''],
     autoUpdateMonth = Some False,
     dryRun = Some False \<rparr>"

definition noOptions :: Options where
  \<comment> \<open>the empty object \<^verbatim>\<open>{}\<close>\<close>
  "noOptions = \<lparr> versionFormat = None, plugins = None, autoUpdateMonth = None, dryRun = None \<rparr>"

definition spread :: "Options \<Rightarrow> Options \<Rightarrow> Options" where
  \<comment> \<open>\<^verbatim>\<open>{...a, ...b}\<close>: a field present in \<open>b\<close> overrides the one of \<open>a\<close>\<close>
  "spread a b = \<lparr>
     versionFormat = (case versionFormat b of None \<Rightarrow> versionFormat a | Some v \<Rightarrow> Some v),
     plugins = (case plugins b of None \<Rightarrow> plugins a | Some v \<Rightarrow> Some v),
     autoUpdateMonth = (case autoUpdateMonth b of None \<Rightarrow> autoUpdateMonth a | Some v \<Rightarrow> Some v),
     dryRun = (case dryRun b of None \<Rightarrow> dryRun a | Some v \<Rightarrow> Some v) \<rparr>"

definition truthy :: "bool option \<Rightarrow> bool" where
  \<comment> \<open>truthiness of an optional boolean field: \<^verbatim>\<open>undefined\<close> is falsy\<close>
  "truthy b = (b = Some True)"

definition getConfig :: "Options \<Rightarrow> Options \<Rightarrow> Options \<Rightarrow> bool \<Rightarrow> Options" where
  \<comment> \<open>\<^verbatim>\<open>getConfig\<close>: defaults, then the configuration file, then \<^verbatim>\<open>package.json\<close>, then the
      caller's options; \<open>envDryRun\<close> is \<^verbatim>\<open>process.env.DRY_RUN === 'true'\<close>\<close>
  "getConfig configFileConfig packageJsonConfig options envDryRun =
     (let config = spread (spread (spread defaults configFileConfig) packageJsonConfig) options
      in config \<lparr> dryRun := Some (truthy (dryRun config) \<or> envDryRun) \<rparr>)"

section \<open>Version format\<close>

definition pluginHasNpm :: "PluginDefinition \<Rightarrow> bool" where
  \<comment> \<open>the callback of \<^verbatim>\<open>options.plugins.some(...)\<close> in \<^verbatim>\<open>determineVersionFormat\<close>\<close>
  "pluginHasNpm plugin =
     (case plugin of
        PluginName name \<Rightarrow> str_includes name ''npm''
      | PluginTuple name \<Rightarrow> str_includes name ''npm''
      | PluginObject path \<Rightarrow> path \<noteq> [] \<and> str_includes path ''npm'')"

definition determineVersionFormat :: "Options \<Rightarrow> string" where
  "determineVersionFormat options =
     (if versionFormat options \<noteq> None \<and> versionFormat options \<noteq> Some []
         \<and> versionFormat options \<noteq> Some ''auto''
      then the (versionFormat options)
      else if plugins options \<noteq> None \<and> list_ex pluginHasNpm (the (plugins options))
      then ''YY.MM.PATCH''
      else ''YY.MM.MINOR.PATCH'')"

section \<open>Commit classification\<close>

datatype ReleaseType = Patch | Minor | Major

text \<open>
  An entry of \<^verbatim>\<open>releaseCommits\<close> is the message behind an emoji and a space. The emoji is
  kept as a tag: \<open>Sparkles\<close> for a feature, \<open>Bug\<close> for a fix, \<open>Zap\<close> for a performance
  improvement, \<open>Collision\<close> for a breaking change.
\<close>

datatype Annotation = Sparkles | Bug | Zap | Collision

record Scan =
  hasFeature :: bool
  hasFix :: bool
  hasBreakingChange :: bool
  releaseCommits :: "(Annotation \<times> string) list"

record CommitAnalysis = Scan +
  shouldRelease :: bool
  releaseType :: ReleaseType

definition messageOf :: "string \<Rightarrow> string" where
  \<comment> \<open>the commit line without its hash prefix\<close>
  "messageOf commit =
     (let spaceIndex = indexOf commit (CHR '' '')
      in if spaceIndex > 0 then substring commit (spaceIndex + 1) else commit)"

definition skipsPackage :: "string \<Rightarrow> string \<Rightarrow> bool" where
  \<comment> \<open>the monorepo check of \<^verbatim>\<open>analyzeCommits\<close>: true when the loop \<^verbatim>\<open>continue\<close>s\<close>
  "skipsPackage packagePath message =
     (packagePath \<noteq> ''.'' \<and>
      (case scopeMatch message of
         None \<Rightarrow> False
       | Some scope \<Rightarrow>
           (let pkgName = basename packagePath
            in scope \<noteq> pkgName \<and> \<not> str_includes scope pkgName)))"

definition category :: "string \<Rightarrow> Annotation option" where
  \<comment> \<open>the \<^verbatim>\<open>if\<close>/\<^verbatim>\<open>else if\<close> chain over the conventional commit types\<close>
  "category message =
     (if typeMatch ''feat'' message then Some Sparkles
      else if typeMatch ''fix'' message then Some Bug
      else if typeMatch ''perf'' message then Some Zap
      else if str_includes message ''BREAKING CHANGE'' \<or> dotPlusThen ''!:'' message
      then Some Collision
      else None)"

definition classify :: "Scan \<Rightarrow> string \<Rightarrow> Scan" where
  \<comment> \<open>the body of the loop for a message that is not skipped. The final test against the
      maintenance types only logs and \<^verbatim>\<open>continue\<close>s at the end of the body, so it changes
      nothing.\<close>
  "classify st message =
     (let st1 = (case category message of
                   Some Sparkles \<Rightarrow>
                     st \<lparr> hasFeature := True,
                          releaseCommits := releaseCommits st @ [(Sparkles, message)] \<rparr>
                 | Some Bug \<Rightarrow>
                     st \<lparr> hasFix := True,
                          releaseCommits := releaseCommits st @ [(Bug, message)] \<rparr>
                 | Some Zap \<Rightarrow>
                     st \<lparr> hasFix := True,
                          releaseCommits := releaseCommits st @ [(Zap, message)] \<rparr>
                 | Some Collision \<Rightarrow>
                     st \<lparr> hasBreakingChange := True,
                          releaseCommits := releaseCommits st @ [(Collision, message)] \<rparr>
                 | None \<Rightarrow> st)
      in if str_includes message ''BREAKING CHANGE:''
         then st1 \<lparr> hasBreakingChange := True \<rparr> else st1)"

definition scanCommit :: "string \<Rightarrow> Scan \<Rightarrow> string \<Rightarrow> Scan" where
  "scanCommit packagePath st commit =
     (let message = messageOf commit
      in if skipsPackage packagePath message then st else classify st message)"

definition commitLines :: "string \<Rightarrow> string list" where
  \<comment> \<open>\<^verbatim>\<open>commitMessages.split('\n').filter(line => line.trim())\<close>\<close>
  "commitLines commitMessages = filter (\<lambda>line. \<not> blank line) (splitLines commitMessages)"

definition analyzeCommits :: "string \<Rightarrow> string \<Rightarrow> CommitAnalysis option" where
  \<comment> \<open>\<open>None\<close> is the \<^verbatim>\<open>null\<close> of the source\<close>
  "analyzeCommits commitMessages packagePath =
     (let commits = commitLines commitMessages;
          st = foldl (scanCommit packagePath)
                 \<lparr> hasFeature = False, hasFix = False, hasBreakingChange = False,
                   releaseCommits = [] \<rparr> commits;
          shouldRelease = (hasFeature st \<or> hasFix st \<or> hasBreakingChange st
                           \<or> length (releaseCommits st) > 0)
      in if \<not> shouldRelease then None
         else Some \<lparr> hasFeature = hasFeature st, hasFix = hasFix st,
                     hasBreakingChange = hasBreakingChange st,
                     releaseCommits = releaseCommits st,
                     shouldRelease = True,
                     releaseType = (if hasBreakingChange st then Major
                                    else if hasFeature st then Minor else Patch) \<rparr>)"

section \<open>Changed packages\<close>

record Package =
  name :: string
  path :: string
  packageJson :: string

text \<open>
  What the git commands of the release core print. \<open>None\<close> stands for a command that
  fails, which \<^verbatim>\<open>execSync\<close> reports by raising.
\<close>

record Git =
  describeTags :: "string option" \<comment> \<open>\<^verbatim>\<open>git describe --tags --abbrev=0\<close>\<close>
  diffSinceTag :: "string option" \<comment> \<open>\<^verbatim>\<open>git diff --name-only <latestTag>..HEAD\<close>\<close>
  diffLastCommit :: "string option" \<comment> \<open>\<^verbatim>\<open>git diff --name-only HEAD~1\<close>\<close>
  lsFiles :: "string option" \<comment> \<open>\<^verbatim>\<open>git ls-files\<close>\<close>
  tagList :: "string option" \<comment> \<open>\<^verbatim>\<open>git tag -l --sort=-version:refname\<close>\<close>






section \<open>Version resolution\<close>

record Date =
  getFullYear :: nat
  getMonth :: nat \<comment> \<open>zero-based, as in JavaScript\<close>

text \<open>
  What \<open>generateCalVerVersion\<close> reads by itself: the output of git, the \<open>version\<close> field of
  the \<^verbatim>\<open>package.json\<close> under a package path (a string; \<open>None\<close> when the file is missing,
  cannot be read or has no version), and the clock.
\<close>

record Env =
  commands :: Git
  packageVersion :: "string \<Rightarrow> string option"
  now :: Date

definition existingTags :: "string option \<Rightarrow> string \<Rightarrow> string list" where
  \<comment> \<open>the \<^verbatim>\<open>existingTags\<close> array: the tag output is cut at the separator, filtered to the
      package, reduced to the version and filtered to the CalVer shapes. A failing command
      leaves the array empty.\<close>
  "existingTags tagOutput packagePath =
     (case tagOutput of
        None \<Rightarrow> []
      | Some out \<Rightarrow>
          (let packageName = (if packagePath = ''.'' then [] else basename packagePath)
           in filter calverMatch
                (map (\<lambda>tag. if packageName \<noteq> []
                             then (case versionOfTag tag of Some v \<Rightarrow> v | None \<Rightarrow> [])
                             else (if startsWith tag ''v-'' then drop 2 tag else tag))
                   (filter (\<lambda>tag. if packageName \<noteq> []
                                   then str_includes tag (''-'' @ packageName @ ''-release'')
                                   else rootTagMatch tag)
                      (filter (\<lambda>tag. \<not> blank tag) (splitBackslashN out))))))"

definition currentYearMonth :: "Date \<Rightarrow> string" where
  "currentYearMonth d =
     (let currentYear = slice_last2 (toString (getFullYear d));
          currentMonth = padStart2 (toString (getMonth d + 1))
      in currentYear @ ''.'' @ currentMonth)"

definition yearMonthOf :: "string \<Rightarrow> string" where
  \<comment> \<open>\<^verbatim>\<open>const [year, month] = s.split('.')\<close> and the template \<^verbatim>\<open>`${year}.${month}`\<close>; a
      missing part prints as \<open>undefined\<close>\<close>
  "yearMonthOf s =
     (let parts = splitDots s;
          year = (if 0 < length parts then parts ! 0 else ''undefined'');
          month = (if 1 < length parts then parts ! 1 else ''undefined'')
      in year @ ''.'' @ month)"

definition packageYearMonth :: "string option \<Rightarrow> string option" where
  \<comment> \<open>the year-month of the declared version when it has a CalVer shape\<close>
  "packageYearMonth packageJsonVersion =
     (case packageJsonVersion of
        None \<Rightarrow> None
      | Some v \<Rightarrow> if v \<noteq> [] \<and> calverMatch v then Some (yearMonthOf v) else None)"

definition isAutoMonthUpdate :: "bool \<Rightarrow> string \<Rightarrow> string option \<Rightarrow> bool" where
  "isAutoMonthUpdate autoUpdate current packageJsonVersion =
     (case packageYearMonth packageJsonVersion of
        None \<Rightarrow> False
      | Some pkgYearMonth \<Rightarrow> autoUpdate \<and> js_less pkgYearMonth current)"

definition targetYearMonth :: "bool \<Rightarrow> string \<Rightarrow> string option \<Rightarrow> string" where
  "targetYearMonth autoUpdate current packageJsonVersion =
     (case packageYearMonth packageJsonVersion of
        None \<Rightarrow> current
      | Some pkgYearMonth \<Rightarrow>
          if autoUpdate \<and> js_less pkgYearMonth current then current else pkgYearMonth)"

definition isManualBump :: "bool \<Rightarrow> string \<Rightarrow> string option \<Rightarrow> string list \<Rightarrow> bool" where
  "isManualBump autoUpdate current packageJsonVersion tags =
     (case packageYearMonth packageJsonVersion of
        None \<Rightarrow> False
      | Some pkgYearMonth \<Rightarrow>
          \<not> isAutoMonthUpdate autoUpdate current packageJsonVersion \<and> length tags > 0
          \<and> targetYearMonth autoUpdate current packageJsonVersion \<noteq> yearMonthOf (tags ! 0))"

definition currentMonthTags ::
  "bool \<Rightarrow> bool \<Rightarrow> string \<Rightarrow> string option \<Rightarrow> string list \<Rightarrow> string list" where
  "currentMonthTags isNpmCompatible autoUpdate current packageJsonVersion tags =
     filter (\<lambda>tag. length (splitDots tag) = (if isNpmCompatible then 3 else 4))
       (filter (\<lambda>tag. startsWith tag (targetYearMonth autoUpdate current packageJsonVersion))
          tags)"

definition newVersion ::
  "ReleaseType \<Rightarrow> bool \<Rightarrow> bool \<Rightarrow> string \<Rightarrow> string option \<Rightarrow> string list \<Rightarrow> string" where
  \<comment> \<open>the computation of \<open>generateCalVerVersion\<close> from the values it has read. The candidate
      tags have three or four parts by the filter above, which covers the indices read.\<close>
  "newVersion rt isNpmCompatible autoUpdate current packageJsonVersion tags =
     (let target = targetYearMonth autoUpdate current packageJsonVersion;
          monthTags = currentMonthTags isNpmCompatible autoUpdate current packageJsonVersion tags
      in if length monthTags = 0
            \<or> isManualBump autoUpdate current packageJsonVersion tags
            \<or> isAutoMonthUpdate autoUpdate current packageJsonVersion
         then (if isNpmCompatible then target @ ''.1'' else target @ ''.0.1'')
         else (let latestTag = monthTags ! 0;
                   parts = map numberOf (splitDots latestTag)
               in if isNpmCompatible
                  then target @ ''.'' @ toString (parts ! 2 + 1)
                  else (let minor = parts ! 2; patch = parts ! 3
                        in if rt = Minor \<or> rt = Major
                           then target @ ''.'' @ toString (minor + 1) @ ''.'' @ toString 1
                           else target @ ''.'' @ toString minor @ ''.'' @ toString (patch + 1))))"

definition generateCalVerVersion :: "Env \<Rightarrow> ReleaseType \<Rightarrow> string \<Rightarrow> Options \<Rightarrow> string" where
  "generateCalVerVersion env rt packagePath options =
     (let isNpmCompatible = (determineVersionFormat options = ''YY.MM.PATCH'');
          packageJsonVersion = packageVersion env packagePath;
          tags = existingTags (tagList (commands env)) packagePath
      in newVersion rt isNpmCompatible (truthy (autoUpdateMonth options))
           (currentYearMonth (now env)) packageJsonVersion tags)"

section \<open>Release of a package\<close>

definition tagName :: "Package \<Rightarrow> string \<Rightarrow> string" where
  \<comment> \<open>the \<^verbatim>\<open>tagName\<close> of \<^verbatim>\<open>processPackageRelease\<close>: \<^verbatim>\<open>packageName\<close> is \<^verbatim>\<open>null\<close> for the package
      named \<open>root\<close>, and an empty name is falsy as well\<close>
  "tagName pkg v =
     (if name pkg = ''root'' \<or> name pkg = [] then ''v-'' @ v
      else ''v-'' @ v @ ''-'' @ name pkg @ ''-release'')"

text \<open>
  What a release leaves behind when the statements that record it succeed: the new version
  is written into the \<^verbatim>\<open>package.json\<close> of the package and \<^verbatim>\<open>git tag\<close> creates the tag.
  git is not part of the program. \<^verbatim>\<open>git tag -l --sort=-version:refname\<close> prints one tag
  per line, each ended by a line feed, the highest version first; the new tag is put in
  front of the output, which is where git prints it when its version is higher than every
  version listed before. A statement that raises (a missing \<^verbatim>\<open>package.json\<close>, a tag that
  exists) ends the run without a result; such runs emit nothing and are left out.
\<close>

definition recordRelease :: "Env \<Rightarrow> Package \<Rightarrow> string \<Rightarrow> Env" where
  "recordRelease env pkg v =
     env \<lparr> commands := (commands env) \<lparr> tagList :=
              Some (tagName pkg v @ CHR 0x0A #
                      (case tagList (commands env) of None \<Rightarrow> [] | Some out \<Rightarrow> out)) \<rparr>,
           packageVersion := (packageVersion env) (path pkg := Some v) \<rparr>"

definition processPackageRelease ::
  "Env \<Rightarrow> Package \<Rightarrow> string \<Rightarrow> Options \<Rightarrow> string option \<times> Env" where
  \<comment> \<open>\<^verbatim>\<open>processPackageRelease\<close>: of the returned object the version is kept, \<open>None\<close> is its
      \<^verbatim>\<open>null\<close>. The changelog and the release notes are left out. In a dry run nothing is
      recorded.\<close>
  "processPackageRelease env pkg commits options =
     (case analyzeCommits commits (path pkg) of
        None \<Rightarrow> (None, env)
      | Some analysis \<Rightarrow>
          if \<not> shouldRelease analysis then (None, env)
          else (let v = generateCalVerVersion env (releaseType analysis) (path pkg) options
                in if truthy (dryRun options) then (Some v, env)
                   else (Some v, recordRelease env pkg v)))"

section \<open>Release orchestration\<close>

datatype Error = Error string

text \<open>
  The release record that the stages pass on. Only the fields that the orchestrator itself
  reads or writes are kept: the version and the aggregated notes.
\<close>

record NextRelease =
  version :: string
  "notes" :: "string option"

text \<open>
  The context that every hook receives. Its \<^verbatim>\<open>options\<close> field refers to the configuration
  object of the run, the same object whose \<^verbatim>\<open>dryRun\<close> field the orchestrator tests after the
  notes: \<open>ctxOptions\<close> is the content of that object, which a hook may change in place.
\<close>

record Context =
  ctxOptions :: Options
  nextRelease :: "NextRelease option"

text \<open>
  A hook is called with the context and, for failure hooks, the triggering error. It returns
  a value (or \<^verbatim>\<open>undefined\<close>, here \<open>None\<close>) or raises, and may have changed the context in
  either case.
\<close>

datatype 'r Outcome = Returned "'r option" | Raised Error

type_synonym 'r Hook = "Context \<Rightarrow> Error option \<Rightarrow> 'r Outcome \<times> Context"

type_synonym PluginResult = string

text \<open>
  The hooks by lifecycle step, in registration order. A publish hook returns one result or
  an array of results, here a list. The \<^verbatim>\<open>analyzeCommits\<close> hooks are collected by
  \<^verbatim>\<open>getPlugins\<close> but never run by \<^verbatim>\<open>calverRelease\<close>; they are left out.
\<close>

record PluginCollection =
  verifyConditions :: "unit Hook list"
  verifyRelease :: "unit Hook list"
  generateNotes :: "string Hook list"
  prepare :: "unit Hook list"
  publish :: "PluginResult list Hook list"
  success :: "unit Hook list"
  fail :: "unit Hook list"

text \<open>
  The effects of a run that the statements observe, in the order of the calls: each
  invocation of a hook, with its lifecycle step, its position in the list of that step, the
  error it was given (failure hooks only) and the error it raised, if it raised. Log lines
  are left out.
\<close>

datatype Stage =
  VerifyConditions | VerifyRelease | GenerateNotes | Prepare | Publish | Success | Fail

datatype Event =
  Event (evStage: Stage) (evIndex: nat) (evGiven: "Error option") (evRaised: "Error option")

type_synonym Trace = "Event list"

fun runPluginsFrom ::
  "nat \<Rightarrow> Stage \<Rightarrow> 'r Hook list \<Rightarrow> Error option \<Rightarrow> 'r list \<Rightarrow> Context \<times> Trace
     \<Rightarrow> (Error + 'r list) \<times> Context \<times> Trace" where
  \<comment> \<open>the loop of \<^verbatim>\<open>runPlugins\<close> from position \<open>i\<close> of the list on: a raising hook is
      logged and its error raised again, which ends the loop\<close>
  "runPluginsFrom i stage [] arg results (ctx, trace) = (Inr results, ctx, trace)"
| "runPluginsFrom i stage (plugin # rest) arg results (ctx, trace) =
     (case plugin ctx arg of
        (Raised error, ctx') \<Rightarrow> (Inl error, ctx', trace @ [Event stage i arg (Some error)])
      | (Returned result, ctx') \<Rightarrow>
          runPluginsFrom (Suc i) stage rest arg
            (case result of None \<Rightarrow> results | Some r \<Rightarrow> results @ [r])
            (ctx', trace @ [Event stage i arg None]))"

definition runPlugins ::
  "Stage \<Rightarrow> 'r Hook list \<Rightarrow> Error option \<Rightarrow> Context \<times> Trace
     \<Rightarrow> (Error + 'r list) \<times> Context \<times> Trace" where
  "runPlugins stage hooks arg st = runPluginsFrom 0 stage hooks arg [] st"

text \<open>
  \<^verbatim>\<open>analyzeStep\<close> reads the repository. What it returns is a parameter of the run: an error
  when it raises, else whether to release and the release record.
\<close>

record StepResult =
  stepShouldRelease :: bool
  stepNextRelease :: "NextRelease option"

datatype CalverReleaseResult =
    NoRelease \<comment> \<open>\<^verbatim>\<open>{ released: false }\<close>\<close>
  | DryRun "NextRelease option" \<comment> \<open>\<^verbatim>\<open>{ released: false, dryRun: true, nextRelease }\<close>\<close>
  | Released "NextRelease option" "PluginResult list"
      \<comment> \<open>\<^verbatim>\<open>{ released: true, nextRelease, releases }\<close>\<close>

fun joinNotes :: "string list \<Rightarrow> string" where
  \<comment> \<open>\<^verbatim>\<open>notes.join('\\n\\n')\<close>: the separator is backslash, \<open>n\<close>, backslash, \<open>n\<close>\<close>
  "joinNotes [] = []"
| "joinNotes [n] = n"
| "joinNotes (n # ns) = n @ [CHR 0x5C, CHR ''n'', CHR 0x5C, CHR ''n''] @ joinNotes ns"

definition tryRelease ::
  "PluginCollection \<Rightarrow> (Context \<Rightarrow> Error + StepResult) \<Rightarrow> Context
     \<Rightarrow> (Error + CalverReleaseResult) \<times> Context \<times> Trace" where
  \<comment> \<open>the \<^verbatim>\<open>try\<close> block of \<^verbatim>\<open>calverRelease\<close>; \<open>Inl\<close> is an error raised out of the block.
      Reading \<^verbatim>\<open>notes\<close> of a missing release record raises a type error. The dry-run test
      reads the configuration object as the hooks have left it.\<close>
  "tryRelease collection analyzeStep ctx =
     (case runPlugins VerifyConditions (verifyConditions collection) None (ctx, []) of
        (Inl error, st1) \<Rightarrow> (Inl error, st1)
      | (Inr _, (ctx1, trace1)) \<Rightarrow>
     (case analyzeStep ctx1 of
        Inl error \<Rightarrow> (Inl error, ctx1, trace1)
      | Inr analysis \<Rightarrow>
     if \<not> stepShouldRelease analysis then (Inr NoRelease, ctx1, trace1)
     else
     (case runPlugins VerifyRelease (verifyRelease collection) None
             (ctx1 \<lparr> nextRelease := stepNextRelease analysis \<rparr>, trace1) of
        (Inl error, st2) \<Rightarrow> (Inl error, st2)
      | (Inr _, st2) \<Rightarrow>
     (case runPlugins GenerateNotes (generateNotes collection) None st2 of
        (Inl error, st3) \<Rightarrow> (Inl error, st3)
      | (Inr generated, (ctx3, trace3)) \<Rightarrow>
     (case nextRelease ctx3 of
        None \<Rightarrow> (Inl (Error ''TypeError''), ctx3, trace3)
      | Some release \<Rightarrow>
     (let ctx4 = ctx3 \<lparr> nextRelease :=
            Some (release \<lparr> notes := Some (joinNotes (filter (\<lambda>n. n \<noteq> []) generated)) \<rparr>) \<rparr>
      in
     if truthy (dryRun (ctxOptions ctx4)) then (Inr (DryRun (nextRelease ctx4)), ctx4, trace3)
     else
     (case runPlugins Prepare (prepare collection) None (ctx4, trace3) of
        (Inl error, st5) \<Rightarrow> (Inl error, st5)
      | (Inr _, st5) \<Rightarrow>
     (case runPlugins Publish (publish collection) None st5 of
        (Inl error, st6) \<Rightarrow> (Inl error, st6)
      | (Inr publishResult, st6) \<Rightarrow>
     (case runPlugins Success (success collection) None st6 of
        (Inl error, st7) \<Rightarrow> (Inl error, st7)
      | (Inr _, (ctx7, trace7)) \<Rightarrow>
          (Inr (Released (nextRelease ctx7) (concat publishResult)), ctx7, trace7))))))))))"

definition failRun ::
  "PluginCollection \<Rightarrow> Error \<Rightarrow> Context \<times> Trace
     \<Rightarrow> (Error + CalverReleaseResult) \<times> Context \<times> Trace" where
  \<comment> \<open>the \<^verbatim>\<open>catch\<close> block of \<^verbatim>\<open>calverRelease\<close>: the failure hooks run with the error, then
      the error is raised again; an error raised by \<^verbatim>\<open>runPlugins\<close> leaves the block first\<close>
  "failRun collection error st =
     (case runPlugins Fail (fail collection) (Some error) st of
        (Inl failError, st') \<Rightarrow> (Inl failError, st')
      | (Inr _, st') \<Rightarrow> (Inl error, st'))"

definition calverRelease ::
  "Options \<Rightarrow> PluginCollection \<Rightarrow> (Context \<Rightarrow> Error + StepResult) \<Rightarrow> Context
     \<Rightarrow> (Error + CalverReleaseResult) \<times> Context \<times> Trace" where
  \<comment> \<open>the run for the merged configuration (\<open>config\<close>), the loaded plugins (\<open>collection\<close>) and
      the caller's context: the context of the run refers to the configuration, the
      \<^verbatim>\<open>try\<close> block runs, and an error raised out of it is handled by the \<^verbatim>\<open>catch\<close> block\<close>
  "calverRelease config collection analyzeStep context =
     (let ctx = context \<lparr> ctxOptions := config \<rparr>
      in case tryRelease collection analyzeStep ctx of
           (Inl error, st) \<Rightarrow> failRun collection error st
         | (Inr result, st) \<Rightarrow> (Inr result, st))"

section \<open>Notions used by the statements\<close>

text \<open>
  The messages that reach the classification in \<open>analyzeCommits\<close> for a package: the
  non-blank lines of the log, without their hash prefix, that the monorepo check does not
  skip.
\<close>

definition attributed :: "string \<Rightarrow> string \<Rightarrow> string list" where
  "attributed commitMessages packagePath =
     filter (\<lambda>message. \<not> skipsPackage packagePath message)
       (map messageOf (commitLines commitMessages))"

text \<open>
  A message sets \<open>hasBreakingChange\<close> when the chain classifies it as breaking or when it
  carries the footer token followed by a colon.
\<close>

definition setsBreaking :: "string \<Rightarrow> bool" where
  "setsBreaking message =
     (category message = Some Collision \<or> str_includes message ''BREAKING CHANGE:'')"


definition sampleLog :: string where
  "sampleLog = ''a1b2c3d feat: add x'' @ [CHR 0x0A] @ ''e4f5a6b fix!: y BREAKING CHANGE: z''
     @ [CHR 0x0A] @ ''0123456 chore: tidy''"

text \<open>The two packages and the commit log of the monorepo scenario.\<close>

definition corePackage :: Package where
  "corePackage = \<lparr> name = ''core'', path = ''packages/core'',
     packageJson = ''packages/core/package.json'' \<rparr>"




text \<open>Sample surroundings of a run, used to instantiate the statements.\<close>

definition noGit :: Git where
  "noGit = \<lparr> describeTags = None, diffSinceTag = None, diffLastCommit = None, lsFiles = None,
     tagList = None \<rparr>"

definition august :: Date where
  "august = \<lparr> getFullYear = 2025, getMonth = 7 \<rparr>"

definition july :: Date where
  "july = \<lparr> getFullYear = 2025, getMonth = 6 \<rparr>"

definition freshEnv :: Env where
  "freshEnv = \<lparr> commands = noGit, packageVersion = (\<lambda>packagePath. None), now = august \<rparr>"

definition fourPartOptions :: Options where
  "fourPartOptions = defaults \<lparr> plugins := Some [PluginName ''@calver-release/git''] \<rparr>"

definition staleEnv :: Env where
  "staleEnv = \<lparr> commands = noGit \<lparr> tagList := Some (''v-25.08.0.1-core-release'' @ [CHR 0x0A]) \<rparr>,
     packageVersion = (\<lambda>packagePath. Some ''25.07.0.3''), now = august \<rparr>"

definition rollOptions :: Options where
  "rollOptions = fourPartOptions \<lparr> autoUpdateMonth := Some True \<rparr>"


definition taggedEnv :: "string \<Rightarrow> Env" where
  "taggedEnv out = \<lparr> commands = noGit \<lparr> tagList := Some out \<rparr>,
     packageVersion = (\<lambda>packagePath. Some ''25.07.3''), now = july \<rparr>"

text \<open>
  The local variables of \<open>generateCalVerVersion\<close> in a given run: the parsed tag list, the
  format test, the target year-month, the two flags and the candidate tags.
\<close>

definition tagsOf :: "Env \<Rightarrow> string \<Rightarrow> string list" where
  "tagsOf env packagePath = existingTags (tagList (commands env)) packagePath"

definition threePart :: "Options \<Rightarrow> bool" where
  "threePart options = (determineVersionFormat options = ''YY.MM.PATCH'')"

definition targetOf :: "Env \<Rightarrow> string \<Rightarrow> Options \<Rightarrow> string" where
  "targetOf env packagePath options =
     targetYearMonth (truthy (autoUpdateMonth options)) (currentYearMonth (now env))
       (packageVersion env packagePath)"

definition autoRolled :: "Env \<Rightarrow> string \<Rightarrow> Options \<Rightarrow> bool" where
  "autoRolled env packagePath options =
     isAutoMonthUpdate (truthy (autoUpdateMonth options)) (currentYearMonth (now env))
       (packageVersion env packagePath)"


definition candidateTags :: "Env \<Rightarrow> string \<Rightarrow> Options \<Rightarrow> string list" where
  "candidateTags env packagePath options =
     currentMonthTags (threePart options) (truthy (autoUpdateMonth options))
       (currentYearMonth (now env)) (packageVersion env packagePath) (tagsOf env packagePath)"

text \<open>
  The tuple of a version: its counters after the year and the month, that is the patch
  counter of a three-part version and the minor and patch counters of a four-part one.
  Tuples are compared lexicographically.
\<close>

definition tupleOf :: "string \<Rightarrow> nat \<times> nat" where
  "tupleOf tag =
     (case drop 2 (splitDots tag) of
        [] \<Rightarrow> (0, 0)
      | [patch] \<Rightarrow> (0, numberOf patch)
      | minor # patch # _ \<Rightarrow> (numberOf minor, numberOf patch))"

definition tupleLess :: "nat \<times> nat \<Rightarrow> nat \<times> nat \<Rightarrow> bool" where
  "tupleLess a b = (fst a < fst b \<or> (fst a = fst b \<and> snd a < snd b))"

text \<open>
  The versions emitted in a row for a package when \<open>processPackageRelease\<close> is run once
  for each of a list of commit logs, every run reading what the runs before it have
  recorded.
\<close>

fun releases :: "Env \<Rightarrow> Package \<Rightarrow> Options \<Rightarrow> string list \<Rightarrow> string list" where
  "releases env pkg options [] = []"
| "releases env pkg options (commits # logs) =
     (case processPackageRelease env pkg commits options of
        (None, env') \<Rightarrow> releases env' pkg options logs
      | (Some v, env') \<Rightarrow> v # releases env' pkg options logs)"

text \<open>The line that git prints for the tag of a version of a package.\<close>

definition tagLine :: "string \<Rightarrow> string \<Rightarrow> string" where
  "tagLine v packageName = ''v-'' @ v @ ''-'' @ packageName @ ''-release'' @ [CHR 0x0A]"

definition releasedEnv :: Env where
  "releasedEnv = \<lparr> commands = noGit \<lparr> tagList := Some (''v-25.07.0.1-core-release'' @ [CHR 0x0A]) \<rparr>,
     packageVersion = (\<lambda>packagePath. Some ''25.07.0.1''), now = august \<rparr>"

text \<open>The tuple that the increment step computes from the candidate tags.\<close>

definition nextTuple :: "ReleaseType \<Rightarrow> bool \<Rightarrow> string list \<Rightarrow> nat \<times> nat" where
  "nextTuple rt isNpmCompatible monthTags =
     (case monthTags of
        [] \<Rightarrow> (0, 1)
      | latestTag # _ \<Rightarrow>
          if isNpmCompatible then (0, snd (tupleOf latestTag) + 1)
          else if rt = Minor \<or> rt = Major then (fst (tupleOf latestTag) + 1, 1)
          else (fst (tupleOf latestTag), snd (tupleOf latestTag) + 1))"

text \<open>
  The entries that the failure step adds to the trace when it invokes the first \<open>k\<close> failure
  hooks, in registration order, each with the triggering error; \<open>lastRaise\<close> is the error
  raised by the last of them, if it raised.
\<close>

definition failureEvents :: "Error \<Rightarrow> nat \<Rightarrow> Error option \<Rightarrow> Event list" where
  "failureEvents error k lastRaise =
     map (\<lambda>j. Event Fail j (Some error) (if Suc j = k then lastRaise else None)) [0..<k]"

text \<open>
  A hook answers a call with a given argument by returning (\<open>None\<close>) or by raising an
  error (\<open>Some\<close>) when it does so in some context.
\<close>

definition answers :: "'r Hook \<Rightarrow> Error option \<Rightarrow> Error option \<Rightarrow> bool" where
  "answers hook arg raised =
     (\<exists>ctx. case fst (hook ctx arg) of
              Returned result \<Rightarrow> raised = None
            | Raised error \<Rightarrow> raised = Some error)"

text \<open>
  A trace is calm within a set of lifecycle steps when it holds invocations of those steps
  only, none of which was given an error or raised. It is broken by an error when it is
  calm but for a last invocation that raised that error, or when it is calm (the error
  then comes from the analysis or from the missing release record).
\<close>

definition calm :: "Stage set \<Rightarrow> Trace \<Rightarrow> bool" where
  "calm stages trace =
     (\<forall>p\<in>set trace. evStage p \<in> stages \<and> evGiven p = None \<and> evRaised p = None)"

definition broken :: "Stage set \<Rightarrow> Error \<Rightarrow> Trace \<Rightarrow> bool" where
  "broken stages error trace =
     (calm stages trace
      \<or> (\<exists>before ev. trace = before @ [ev] \<and> calm stages before \<and> evStage ev \<in> stages
            \<and> evGiven ev = None \<and> evRaised ev = Some error))"

text \<open>
  A hook keeps the dry run when it never hands back a configuration with a falsy \<open>dryRun\<close>
  after receiving one where it is truthy, whether it returns or raises.
\<close>

definition keepsDryRun :: "'r Hook \<Rightarrow> bool" where
  "keepsDryRun hook =
     (\<forall>ctx arg. truthy (dryRun (ctxOptions ctx))
        \<longrightarrow> truthy (dryRun (ctxOptions (snd (hook ctx arg)))))"

text \<open>Sample hooks and plugin collections, used to instantiate the statements.\<close>

definition raising :: "Error \<Rightarrow> 'r Hook" where
  "raising error = (\<lambda>ctx arg. (Raised error, ctx))"

definition quiet :: "'r Hook" where
  "quiet = (\<lambda>ctx arg. (Returned None, ctx))"

definition noting :: "string \<Rightarrow> string Hook" where
  "noting n = (\<lambda>ctx arg. (Returned (Some n), ctx))"

definition unsetDryRun :: "'r Hook" where
  \<comment> \<open>a hook that runs \<^verbatim>\<open>ctx.options.dryRun = false\<close>\<close>
  "unsetDryRun =
     (\<lambda>ctx arg. (Returned None, ctx \<lparr> ctxOptions := (ctxOptions ctx) \<lparr> dryRun := Some False \<rparr> \<rparr>))"

definition samplePlugins :: PluginCollection where
  "samplePlugins = \<lparr> verifyConditions = [quiet, raising (Error ''no token'')],
     verifyRelease = [], generateNotes = [noting ''## notes''], prepare = [quiet], publish = [],
     success = [quiet],
     fail = [raising (Error ''notification failed''), quiet] \<rparr>"

definition sampleStep :: "Context \<Rightarrow> Error + StepResult" where
  "sampleStep ctx = Inr \<lparr> stepShouldRelease = True,
     stepNextRelease = Some \<lparr> version = ''25.08.1'', notes = None \<rparr> \<rparr>"

definition emptyContext :: Context where
  "emptyContext = \<lparr> ctxOptions = noOptions, nextRelease = None \<rparr>"

definition dryConfig :: Options where
  "dryConfig = getConfig noOptions noOptions (noOptions \<lparr> dryRun := Some True \<rparr>) False"

definition quietFailPlugins :: PluginCollection where
  "quietFailPlugins = samplePlugins \<lparr> fail := [quiet, quiet] \<rparr>"

definition passingPlugins :: PluginCollection where
  "passingPlugins = samplePlugins \<lparr> verifyConditions := [quiet] \<rparr>"

definition switchingPlugins :: PluginCollection where
  "switchingPlugins = samplePlugins \<lparr> verifyConditions := [unsetDryRun] \<rparr>"

section \<open>Properties\<close>

lemma defaults_have_npm: "list_ex pluginHasNpm (the (plugins defaults))"
  by (simp add: defaults_def pluginHasNpm_def startsWith_def)

subsection \<open>Commit classification\<close>

lemma startsWith_iff: "startsWith s p \<longleftrightarrow> (\<exists>t. s = p @ t)"
  unfolding startsWith_def
  by (metis append_eq_conv_conj append_take_drop_id)

lemma str_includes_iff: "str_includes s sub \<longleftrightarrow> (\<exists>pre post. s = pre @ sub @ post)"
proof (induction s)
  case Nil
  then show ?case by auto
next
  case (Cons c s)
  show ?case
  proof
    assume "str_includes (c # s) sub"
    then consider "startsWith (c # s) sub" | "str_includes s sub" by auto
    then show "\<exists>pre post. c # s = pre @ sub @ post"
    proof cases
      case 1
      then obtain t where "c # s = sub @ t" by (auto simp: startsWith_iff)
      then have "c # s = [] @ sub @ t" by simp
      then show ?thesis by blast
    next
      case 2
      then obtain pre post where "s = pre @ sub @ post" using Cons.IH by blast
      then have "c # s = (c # pre) @ sub @ post" by simp
      then show ?thesis by blast
    qed
  next
    assume "\<exists>pre post. c # s = pre @ sub @ post"
    then obtain pre post where e: "c # s = pre @ sub @ post" by blast
    show "str_includes (c # s) sub"
    proof (cases pre)
      case Nil
      with e have "startsWith (c # s) sub" by (simp add: startsWith_iff)
      then show ?thesis by simp
    next
      case (Cons a pre')
      with e have "s = pre' @ sub @ post" by simp
      then show ?thesis using Cons.IH by auto
    qed
  qed
qed

lemma str_includes_prefix: "str_includes s (a @ b) \<Longrightarrow> str_includes s a"
  by (metis append.assoc str_includes_iff)

lemma breaking_footer_categorised:
  "str_includes message ''BREAKING CHANGE:'' \<Longrightarrow> category message \<noteq> None"
proof -
  assume "str_includes message ''BREAKING CHANGE:''"
  then have "str_includes message (''BREAKING CHANGE'' @ '':'')" by simp
  then have "str_includes message ''BREAKING CHANGE''" by (rule str_includes_prefix)
  then show ?thesis by (simp add: category_def)
qed

lemma scan_attributed:
  "foldl (scanCommit packagePath) st commits =
   foldl classify st (filter (\<lambda>message. \<not> skipsPackage packagePath message) (map messageOf commits))"
  by (induction commits arbitrary: st) (simp_all add: scanCommit_def Let_def)

lemma classify_hasFeature:
  "hasFeature (classify st m) = (hasFeature st \<or> category m = Some Sparkles)"
  by (simp add: classify_def Let_def split: option.splits Annotation.splits)

lemma classify_hasFix:
  "hasFix (classify st m) = (hasFix st \<or> category m = Some Bug \<or> category m = Some Zap)"
  by (simp add: classify_def Let_def split: option.splits Annotation.splits)

lemma classify_hasBreakingChange:
  "hasBreakingChange (classify st m) = (hasBreakingChange st \<or> setsBreaking m)"
  by (simp add: classify_def setsBreaking_def Let_def split: option.splits Annotation.splits)

lemma classify_releaseCommits:
  "releaseCommits (classify st m) =
     releaseCommits st @ (case category m of None \<Rightarrow> [] | Some a \<Rightarrow> [(a, m)])"
  by (simp add: classify_def Let_def split: option.splits Annotation.splits)

lemma fold_hasFeature:
  "hasFeature (foldl classify st ms) = (hasFeature st \<or> (\<exists>m\<in>set ms. category m = Some Sparkles))"
  by (induction ms arbitrary: st) (auto simp: classify_hasFeature)

lemma fold_hasFix:
  "hasFix (foldl classify st ms) =
     (hasFix st \<or> (\<exists>m\<in>set ms. category m = Some Bug \<or> category m = Some Zap))"
  by (induction ms arbitrary: st) (auto simp: classify_hasFix)

lemma fold_hasBreakingChange:
  "hasBreakingChange (foldl classify st ms) = (hasBreakingChange st \<or> (\<exists>m\<in>set ms. setsBreaking m))"
  by (induction ms arbitrary: st) (auto simp: classify_hasBreakingChange)

lemma fold_releaseCommits:
  "releaseCommits (foldl classify st ms) =
     releaseCommits st @ concat (map (\<lambda>m. case category m of None \<Rightarrow> [] | Some a \<Rightarrow> [(a, m)]) ms)"
  by (induction ms arbitrary: st) (simp_all add: classify_releaseCommits)

text \<open>
  Claim C7. \<open>analyzeCommits\<close> returns the \<open>none\<close> value exactly when no attributed commit
  falls into one of the categories feature, fix, performance or breaking; otherwise it
  returns a record with \<open>shouldRelease\<close> set, whose \<open>releaseType\<close> is major when some
  attributed commit set \<open>hasBreakingChange\<close>, else minor when some attributed commit is a
  feature, else patch.
\<close>

theorem analyzeCommits_decision:
  "(analyzeCommits commitMessages packagePath = None
      \<longleftrightarrow> (\<forall>m\<in>set (attributed commitMessages packagePath). category m = None))
   \<and> (\<forall>a. analyzeCommits commitMessages packagePath = Some a \<longrightarrow>
          shouldRelease a
        \<and> (hasBreakingChange a \<longleftrightarrow> (\<exists>m\<in>set (attributed commitMessages packagePath). setsBreaking m))
        \<and> (hasFeature a
             \<longleftrightarrow> (\<exists>m\<in>set (attributed commitMessages packagePath). category m = Some Sparkles))
        \<and> releaseType a =
            (if hasBreakingChange a then Major else if hasFeature a then Minor else Patch))"
proof -
  define ms where "ms = attributed commitMessages packagePath"
  define st where "st = foldl classify
      \<lparr> hasFeature = False, hasFix = False, hasBreakingChange = False, releaseCommits = [] \<rparr> ms"
  have fold: "foldl (scanCommit packagePath)
      \<lparr> hasFeature = False, hasFix = False, hasBreakingChange = False, releaseCommits = [] \<rparr>
      (commitLines commitMessages) = st"
    unfolding st_def ms_def attributed_def by (rule scan_attributed)
  have feat: "hasFeature st \<longleftrightarrow> (\<exists>m\<in>set ms. category m = Some Sparkles)"
    unfolding st_def by (simp add: fold_hasFeature)
  have fx: "hasFix st \<longleftrightarrow> (\<exists>m\<in>set ms. category m = Some Bug \<or> category m = Some Zap)"
    unfolding st_def by (simp add: fold_hasFix)
  have brk: "hasBreakingChange st \<longleftrightarrow> (\<exists>m\<in>set ms. setsBreaking m)"
    unfolding st_def by (simp add: fold_hasBreakingChange)
  have rc: "releaseCommits st =
      concat (map (\<lambda>m. case category m of None \<Rightarrow> [] | Some a \<Rightarrow> [(a, m)]) ms)"
    unfolding st_def by (simp add: fold_releaseCommits)
  have rc_empty: "releaseCommits st = [] \<longleftrightarrow> (\<forall>m\<in>set ms. category m = None)"
    unfolding rc by (auto split: option.splits)
  have brk_cat: "setsBreaking m \<Longrightarrow> category m \<noteq> None" for m
    using breaking_footer_categorised by (auto simp: setsBreaking_def)
  have none: "\<not> (hasFeature st \<or> hasFix st \<or> hasBreakingChange st \<or> length (releaseCommits st) > 0)
      \<longleftrightarrow> (\<forall>m\<in>set ms. category m = None)"
  proof
    assume "\<not> (hasFeature st \<or> hasFix st \<or> hasBreakingChange st \<or> length (releaseCommits st) > 0)"
    then have "releaseCommits st = []" by simp
    then show "\<forall>m\<in>set ms. category m = None" by (simp add: rc_empty)
  next
    assume a: "\<forall>m\<in>set ms. category m = None"
    then have "releaseCommits st = []" by (simp add: rc_empty)
    moreover have "\<not> hasFeature st" using a feat by auto
    moreover have "\<not> hasFix st" using a fx by auto
    moreover have "\<not> hasBreakingChange st" using a brk brk_cat by blast
    ultimately show "\<not> (hasFeature st \<or> hasFix st \<or> hasBreakingChange st \<or> length (releaseCommits st) > 0)"
      by simp
  qed
  have first: "analyzeCommits commitMessages packagePath = None
      \<longleftrightarrow> (\<forall>m\<in>set ms. category m = None)"
    using none by (simp add: analyzeCommits_def fold Let_def)
  have second: "shouldRelease a
        \<and> (hasBreakingChange a \<longleftrightarrow> (\<exists>m\<in>set ms. setsBreaking m))
        \<and> (hasFeature a \<longleftrightarrow> (\<exists>m\<in>set ms. category m = Some Sparkles))
        \<and> releaseType a =
            (if hasBreakingChange a then Major else if hasFeature a then Minor else Patch)"
    if "analyzeCommits commitMessages packagePath = Some a" for a
  proof -
    from that have a: "a = \<lparr> hasFeature = hasFeature st, hasFix = hasFix st,
                     hasBreakingChange = hasBreakingChange st,
                     releaseCommits = releaseCommits st,
                     shouldRelease = True,
                     releaseType = (if hasBreakingChange st then Major
                                    else if hasFeature st then Minor else Patch) \<rparr>"
      unfolding analyzeCommits_def fold Let_def
      by (cases "hasFeature st \<or> hasFix st \<or> hasBreakingChange st \<or> length (releaseCommits st) > 0")
        (simp_all only: if_True if_False not_True_eq_False not_False_eq_True option.inject option.distinct)
    show ?thesis unfolding a using feat brk by simp
  qed
  from first second show ?thesis unfolding ms_def by blast
qed

theorem analyzeCommits_decision_witness:
  "analyzeCommits sampleLog ''.'' \<noteq> None
   \<and> category ''fix!: y BREAKING CHANGE: z'' = Some Collision
   \<and> releaseType (the (analyzeCommits sampleLog ''.'')) = Major
   \<and> analyzeCommits ''0123456 chore: tidy'' ''.'' = None"
proof -
  have e: "analyzeCommits sampleLog ''.'' = Some \<lparr> hasFeature = True, hasFix = False,
      hasBreakingChange = True,
      releaseCommits = [(Sparkles, ''feat: add x''), (Collision, ''fix!: y BREAKING CHANGE: z'')],
      shouldRelease = True, releaseType = Major \<rparr>"
    by code_simp
  have c: "category ''fix!: y BREAKING CHANGE: z'' = Some Collision"
    by code_simp
  have n: "attributed ''0123456 chore: tidy'' ''.'' = [''chore: tidy'']"
    by code_simp
  have cn: "category ''chore: tidy'' = None"
    by code_simp
  from analyzeCommits_decision [of "''0123456 chore: tidy''" "''.''"] n cn
  have "analyzeCommits ''0123456 chore: tidy'' ''.'' = None" by simp
  with e c show ?thesis by simp
qed

subsection \<open>Scoped commits and changed packages\<close>

















subsection \<open>Version resolution\<close>

lemma august_ym: "currentYearMonth august = ''25.08''"
  by code_simp

lemma july_ym: "currentYearMonth july = ''25.07''"
  by code_simp

lemma calverMatch_Nil: "\<not> calverMatch []"
  by (simp add: calverMatch_def calverPrefix_def)

text \<open>
  Claim C5 against the code. git prints one tag per line, each ended by a line feed. The
  tag output is cut at backslash-n instead of the line feed, so in single-package mode the
  output for the tag \<open>v-25.07.3\<close> is one entry that fails the tag pattern: no tag is found
  and the resolver returns \<open>25.07.1\<close> where \<open>25.07.4\<close> is due. Without the final line
  feed the same tag gives \<open>25.07.4\<close>. In a monorepo the uncut output is one entry as well:
  with the tags \<open>v-25.07.5-ui-release\<close> and \<open>v-25.07.3-core-release\<close> the only version
  found for \<open>core\<close> is the one at the start of the output, \<open>25.07.5\<close> of \<open>ui\<close>, and
  \<open>core\<close> is given \<open>25.07.6\<close> where \<open>25.07.4\<close> is due.
\<close>

theorem unsplit_tag_output_restarts_count:
  "generateCalVerVersion (taggedEnv (''v-25.07.3'' @ [CHR 0x0A])) Patch ''.'' defaults = ''25.07.1''
   \<and> tagsOf (taggedEnv (''v-25.07.3'' @ [CHR 0x0A])) ''.'' = []
   \<and> tagsOf (taggedEnv (''v-25.07.3'' @ [CHR 0x0A] @ ''v-25.07.2'' @ [CHR 0x0A])) ''.'' = []
   \<and> generateCalVerVersion (taggedEnv ''v-25.07.3'') Patch ''.'' defaults = ''25.07.4''
   \<and> tagsOf (taggedEnv (''v-25.07.5-ui-release'' @ [CHR 0x0A]
                           @ ''v-25.07.3-core-release'' @ [CHR 0x0A])) ''packages/core''
       = [''25.07.5'']
   \<and> generateCalVerVersion (taggedEnv (''v-25.07.5-ui-release'' @ [CHR 0x0A]
                           @ ''v-25.07.3-core-release'' @ [CHR 0x0A])) Patch ''packages/core''
         defaults = ''25.07.6''"
  by code_simp

text \<open>
  Claim C4 against the code. git prints one tag per line, and the tag output is cut at
  backslash-n instead of the line feed, so for a package of a monorepo the whole output is
  one entry and the only version found is the one at its start. Take the tags
  \<open>v-25.07.5-ui-release\<close> and \<open>v-25.06.3-core-release\<close>, the declared version \<open>25.07.3\<close>
  of \<open>core\<close>, the current month \<open>25.08\<close>, \<open>autoUpdateMonth\<close> disabled and the three-part
  format. No tag of \<open>core\<close> belongs to the target year-month \<open>25.07\<close>, yet the resolver
  takes \<open>25.07.5\<close> of \<open>ui\<close> for a candidate and returns \<open>25.07.6\<close> where the first release
  \<open>25.07.1\<close> is due. With the tag of \<open>core\<close> alone it returns \<open>25.07.1\<close>. The two examples
  of the claim evaluate as the claim says: no tags, no declared version and the current
  month \<open>25.08\<close> give \<open>25.08.1\<close>; \<open>autoUpdateMonth\<close> enabled, the declared version
  \<open>25.07.0.3\<close>, the four-part format and the current month \<open>25.08\<close> give \<open>25.08.0.1\<close>.
\<close>

theorem other_package_tag_hides_first_release:
  "generateCalVerVersion
       (taggedEnv (''v-25.07.5-ui-release'' @ [CHR 0x0A] @ ''v-25.06.3-core-release'' @ [CHR 0x0A])
          \<lparr> now := august \<rparr>)
       Patch ''packages/core'' defaults = ''25.07.6''
   \<and> targetOf
       (taggedEnv (''v-25.07.5-ui-release'' @ [CHR 0x0A] @ ''v-25.06.3-core-release'' @ [CHR 0x0A])
          \<lparr> now := august \<rparr>)
       ''packages/core'' defaults = ''25.07''
   \<and> candidateTags
       (taggedEnv (''v-25.07.5-ui-release'' @ [CHR 0x0A] @ ''v-25.06.3-core-release'' @ [CHR 0x0A])
          \<lparr> now := august \<rparr>)
       ''packages/core'' defaults = [''25.07.5'']
   \<and> generateCalVerVersion (taggedEnv (''v-25.06.3-core-release'' @ [CHR 0x0A]) \<lparr> now := august \<rparr>)
       Patch ''packages/core'' defaults = ''25.07.1''
   \<and> generateCalVerVersion freshEnv Patch ''.'' defaults = ''25.08.1''
   \<and> generateCalVerVersion staleEnv Minor ''packages/core'' rollOptions = ''25.08.0.1''"
  by code_simp

subsection \<open>Versions, counters and tuples\<close>

lemma split1_not_Nil: "split1 c acc s \<noteq> []"
  by (induction s arbitrary: acc) auto

lemma split1_no_sep: "c \<notin> set s \<Longrightarrow> split1 c acc s = [rev acc @ s]"
  by (induction s arbitrary: acc) auto

lemma split1_append: "split1 c acc (a @ c # b) = split1 c acc a @ split1 c [] b"
  by (induction a arbitrary: acc) auto

lemma split1_single: "split1 c acc s = [b] \<Longrightarrow> b = rev acc @ s"
proof (induction s arbitrary: acc)
  case Nil
  then show ?case by simp
next
  case (Cons x xs)
  show ?case
  proof (cases "x = c")
    case True
    with Cons.prems show ?thesis by (simp add: split1_not_Nil)
  next
    case False
    with Cons.prems have "split1 c (x # acc) xs = [b]" by simp
    from Cons.IH [OF this] show ?thesis by simp
  qed
qed

lemma split1_pair: "split1 c acc s = [a, b] \<Longrightarrow> rev acc @ s = a @ c # b"
proof (induction s arbitrary: acc)
  case Nil
  then show ?case by simp
next
  case (Cons x xs)
  show ?case
  proof (cases "x = c")
    case True
    with Cons.prems have "a = rev acc" "split1 c [] xs = [b]" by simp_all
    then show ?thesis using True split1_single [of c "[]" xs b] by simp
  next
    case False
    with Cons.prems have "split1 c (x # acc) xs = [a, b]" by simp
    from Cons.IH [OF this] show ?thesis by simp
  qed
qed

lemma digitChar_digit: "d < 10 \<Longrightarrow> digit (digitChar d)"
proof -
  assume "d < 10"
  then have "d \<in> set [0..<10]" by simp
  moreover have "\<forall>k\<in>set [0..<10]. digit (digitChar k)" by code_simp
  ultimately show ?thesis by blast
qed

lemma digitValue_digitChar: "d < 10 \<Longrightarrow> digitValue (digitChar d) = d"
  by (simp add: digitValue_def digitChar_def)

lemma toString_digits: "\<forall>ch\<in>set (toString n). digit ch"
proof (induction n rule: toString.induct)
  case (1 n)
  show ?case
  proof (cases "n < 10")
    case True
    then show ?thesis by (subst toString.simps) (simp add: digitChar_digit)
  next
    case False
    then show ?thesis using 1 by (subst toString.simps) (simp add: digitChar_digit)
  qed
qed

lemma digit_not_dot: "digit ch \<Longrightarrow> ch \<noteq> CHR ''.''"
  by (auto simp: digit_def)

lemma toString_no_dot: "CHR ''.'' \<notin> set (toString n)"
  using toString_digits digit_not_dot by blast

lemma numberOf_snoc: "numberOf (s @ [ch]) = 10 * numberOf s + digitValue ch"
  by (simp add: numberOf_def)

lemma numberOf_toString: "numberOf (toString n) = n"
proof (induction n rule: toString.induct)
  case (1 n)
  show ?case
  proof (cases "n < 10")
    case True
    then show ?thesis
      by (subst toString.simps) (simp add: numberOf_def digitValue_digitChar)
  next
    case False
    then have "numberOf (toString (n div 10)) = n div 10" using 1 by simp
    then show ?thesis using False
      by (subst toString.simps) (simp add: numberOf_snoc digitValue_digitChar)
  qed
qed

lemma splitDots_counter:
  "splitDots (t @ CHR ''.'' # toString n) = splitDots t @ [toString n]"
  using split1_append [of "CHR ''.''" "[]" t "toString n"] toString_no_dot [of n]
  by (simp add: splitDots_def split1_no_sep)

lemma splitDots_counters:
  "splitDots (t @ CHR ''.'' # toString a @ CHR ''.'' # toString b)
     = splitDots t @ [toString a, toString b]"
proof -
  have "splitDots ((t @ CHR ''.'' # toString a) @ CHR ''.'' # toString b)
      = splitDots (t @ CHR ''.'' # toString a) @ [toString b]"
    by (rule splitDots_counter)
  then show ?thesis by (simp add: splitDots_counter)
qed

lemma toString_1: "toString 1 = ''1''"
  by code_simp

lemma toString_Suc_0: "toString (Suc 0) = ''1''"
  using toString_1 by simp

lemma toString_0: "toString 0 = ''0''"
  by code_simp

lemma splitDots_pair: "splitDots t = [y, m] \<Longrightarrow> t = y @ ''.'' @ m"
  using split1_pair [of "CHR ''.''" "[]" t y m] by (simp add: splitDots_def)

lemma three_part_version:
  assumes "splitDots t = [y, m]"
  shows "startsWith (t @ CHR ''.'' # toString n) t"
    and "splitDots (t @ CHR ''.'' # toString n) = [y, m, toString n]"
    and "yearMonthOf (t @ CHR ''.'' # toString n) = t"
    and "tupleOf (t @ CHR ''.'' # toString n) = (0, n)"
proof -
  show "startsWith (t @ CHR ''.'' # toString n) t" by (simp add: startsWith_def)
  show p: "splitDots (t @ CHR ''.'' # toString n) = [y, m, toString n]"
    by (simp add: splitDots_counter assms)
  have "yearMonthOf (t @ CHR ''.'' # toString n) = y @ ''.'' @ m"
    by (simp add: yearMonthOf_def p)
  then show "yearMonthOf (t @ CHR ''.'' # toString n) = t"
    using splitDots_pair [OF assms] by simp
  show "tupleOf (t @ CHR ''.'' # toString n) = (0, n)"
    by (simp add: tupleOf_def p numberOf_toString)
qed

lemma four_part_version:
  assumes "splitDots t = [y, m]"
  shows "startsWith (t @ CHR ''.'' # toString a @ CHR ''.'' # toString b) t"
    and "splitDots (t @ CHR ''.'' # toString a @ CHR ''.'' # toString b)
           = [y, m, toString a, toString b]"
    and "yearMonthOf (t @ CHR ''.'' # toString a @ CHR ''.'' # toString b) = t"
    and "tupleOf (t @ CHR ''.'' # toString a @ CHR ''.'' # toString b) = (a, b)"
proof -
  show "startsWith (t @ CHR ''.'' # toString a @ CHR ''.'' # toString b) t"
    by (simp add: startsWith_def)
  show p: "splitDots (t @ CHR ''.'' # toString a @ CHR ''.'' # toString b)
           = [y, m, toString a, toString b]"
    by (simp add: splitDots_counters assms)
  have "yearMonthOf (t @ CHR ''.'' # toString a @ CHR ''.'' # toString b) = y @ ''.'' @ m"
    by (simp add: yearMonthOf_def p)
  then show "yearMonthOf (t @ CHR ''.'' # toString a @ CHR ''.'' # toString b) = t"
    using splitDots_pair [OF assms] by simp
  show "tupleOf (t @ CHR ''.'' # toString a @ CHR ''.'' # toString b) = (a, b)"
    by (simp add: tupleOf_def p numberOf_toString)
qed

lemma tupleOf_three:
  assumes "length (splitDots t) = 3"
  shows "tupleOf t = (0, numberOf (splitDots t ! 2))"
proof -
  from assms obtain a b c where "splitDots t = [a, b, c]"
    by (auto simp: numeral_3_eq_3 length_Suc_conv)
  then show ?thesis by (simp add: tupleOf_def)
qed

lemma tupleOf_four:
  assumes "length (splitDots t) = 4"
  shows "tupleOf t = (numberOf (splitDots t ! 2), numberOf (splitDots t ! 3))"
proof -
  have "length (splitDots t) = Suc (Suc (Suc (Suc 0)))" using assms by simp
  then obtain a b c d where "splitDots t = [a, b, c, d]"
    by (auto simp: length_Suc_conv)
  then show ?thesis by (simp add: tupleOf_def)
qed

lemma candidate_parts:
  "t \<in> set (currentMonthTags isNpmCompatible autoUpdate current pv tags) \<Longrightarrow>
   length (splitDots t) = (if isNpmCompatible then 3 else 4)"
  by (simp add: currentMonthTags_def)

lemma newVersion_three:
  assumes "\<not> isAutoMonthUpdate autoUpdate current pv"
    and "\<not> isManualBump autoUpdate current pv tags"
  shows "newVersion rt True autoUpdate current pv tags =
     targetYearMonth autoUpdate current pv @ CHR ''.'' #
       toString (snd (nextTuple rt True (currentMonthTags True autoUpdate current pv tags)))"
proof (cases "currentMonthTags True autoUpdate current pv tags")
  case Nil
  show ?thesis using assms
    by (simp add: newVersion_def Nil nextTuple_def toString_Suc_0)
next
  case (Cons latestTag others)
  then have "latestTag \<in> set (currentMonthTags True autoUpdate current pv tags)"
    by simp
  then have len: "length (splitDots latestTag) = 3"
    using candidate_parts [of latestTag True] by simp
  then have t: "tupleOf latestTag = (0, numberOf (splitDots latestTag ! 2))"
    by (rule tupleOf_three)
  show ?thesis using assms
    by (simp add: newVersion_def Cons nextTuple_def t len)
qed

lemma newVersion_four:
  assumes "\<not> isAutoMonthUpdate autoUpdate current pv"
    and "\<not> isManualBump autoUpdate current pv tags"
  shows "newVersion rt False autoUpdate current pv tags =
     targetYearMonth autoUpdate current pv @ CHR ''.'' #
       toString (fst (nextTuple rt False (currentMonthTags False autoUpdate current pv tags)))
       @ CHR ''.'' #
       toString (snd (nextTuple rt False (currentMonthTags False autoUpdate current pv tags)))"
proof (cases "currentMonthTags False autoUpdate current pv tags")
  case Nil
  show ?thesis using assms
    by (simp add: newVersion_def Nil nextTuple_def toString_0 toString_Suc_0)
next
  case (Cons latestTag others)
  then have "latestTag \<in> set (currentMonthTags False autoUpdate current pv tags)"
    by simp
  then have len: "length (splitDots latestTag) = 4"
    using candidate_parts [of latestTag False] by simp
  then have t: "tupleOf latestTag
        = (numberOf (splitDots latestTag ! 2), numberOf (splitDots latestTag ! 3))"
    by (rule tupleOf_four)
  show ?thesis using assms
    by (simp add: newVersion_def Cons nextTuple_def t len toString_Suc_0 Let_def)
qed

lemma nextTuple_greater:
  assumes "monthTags \<noteq> []"
    and "isNpmCompatible \<longrightarrow> length (splitDots (hd monthTags)) = 3"
  shows "tupleLess (tupleOf (hd monthTags)) (nextTuple rt isNpmCompatible monthTags)"
proof (cases monthTags)
  case Nil
  with assms show ?thesis by simp
next
  case (Cons latestTag others)
  show ?thesis
  proof (cases isNpmCompatible)
    case True
    with assms Cons have "tupleOf latestTag = (0, numberOf (splitDots latestTag ! 2))"
      by (simp add: tupleOf_three)
    then show ?thesis using True Cons by (simp add: nextTuple_def tupleLess_def)
  next
    case False
    then show ?thesis using Cons by (simp add: nextTuple_def tupleLess_def)
  qed
qed

lemma currentYearMonth_parts: "length (splitDots (currentYearMonth d)) = 2"
proof -
  have y: "CHR ''.'' \<notin> set (slice_last2 (toString (getFullYear d)))"
    using toString_no_dot [of "getFullYear d"]
    by (auto simp: slice_last2_def dest: in_set_dropD)
  have m: "CHR ''.'' \<notin> set (padStart2 (toString (getMonth d + 1)))"
    using toString_no_dot [of "getMonth d + 1"] by (auto simp: padStart2_def)
  have "splitDots (slice_last2 (toString (getFullYear d)) @ CHR ''.'' #
          padStart2 (toString (getMonth d + 1)))
        = [slice_last2 (toString (getFullYear d)), padStart2 (toString (getMonth d + 1))]"
    unfolding splitDots_def split1_append using y m by (simp add: split1_no_sep)
  then show ?thesis by (simp add: currentYearMonth_def)
qed

lemma declared_parts:
  assumes "calverMatch v"
  shows "length (splitDots (yearMonthOf v)) = 2"
proof -
  from assms obtain y1 y2 m1 m2 rest where v: "v = y1 # y2 # CHR ''.'' # m1 # m2 # CHR ''.'' # rest"
    and d: "digit y1" "digit y2" "digit m1" "digit m2"
    by (auto simp: calverMatch_def calverPrefix_def split: list.splits if_splits)
  from d have n: "y1 \<noteq> CHR ''.''" "y2 \<noteq> CHR ''.''" "m1 \<noteq> CHR ''.''" "m2 \<noteq> CHR ''.''"
    using digit_not_dot by blast+
  have "splitDots v = [y1, y2] # [m1, m2] # splitDots rest"
    using n by (simp add: v splitDots_def)
  then have "yearMonthOf v = [y1, y2, CHR ''.'', m1, m2]"
    by (simp add: yearMonthOf_def)
  then show ?thesis using n by (simp add: splitDots_def)
qed

lemma target_parts:
  "length (splitDots (targetYearMonth autoUpdate (currentYearMonth d) pv)) = 2"
proof (cases "packageYearMonth pv")
  case None
  then show ?thesis by (simp add: targetYearMonth_def currentYearMonth_parts)
next
  case (Some pkgYearMonth)
  then obtain v where "pv = Some v" "calverMatch v" "pkgYearMonth = yearMonthOf v"
    by (auto simp: packageYearMonth_def split: option.splits if_splits)
  then have "length (splitDots pkgYearMonth) = 2" by (simp add: declared_parts)
  then show ?thesis using Some by (simp add: targetYearMonth_def currentYearMonth_parts)
qed

lemma pair_of_length_2: "length xs = 2 \<Longrightarrow> \<exists>y m. xs = [y, m]"
  by (auto simp: numeral_2_eq_2 length_Suc_conv)

subsection \<open>The tag output of a package\<close>

lemma split2_no_first: "a \<notin> set s \<Longrightarrow> split2 a b acc s = [rev acc @ s]"
  by (induction a b acc s rule: split2.induct) auto

lemma splitBackslashN_whole: "CHR 0x5C \<notin> set s \<Longrightarrow> splitBackslashN s = [s]"
  by (simp add: splitBackslashN_def split2_no_first)

lemma not_blank_Cons: "\<not> js_space c \<Longrightarrow> \<not> blank (c # s)"
proof -
  assume c: "\<not> js_space c"
  then have "dropWhile js_space (rev (dropWhile js_space (c # s))) \<noteq> []"
    by (simp add: dropWhile_append)
  then show ?thesis by (simp add: blank_def trim_def)
qed

lemma js_less_irrefl: "\<not> js_less s s"
  by (induction s) auto

lemma tupleLess_trans: "tupleLess a b \<Longrightarrow> tupleLess b c \<Longrightarrow> tupleLess a c"
  by (auto simp: tupleLess_def)

lemma digits_then:
  assumes "\<forall>c\<in>set ds. digit c" and "s = [] \<or> \<not> digit (hd s)"
  shows "takeWhile digit (ds @ s) = ds" and "dropWhile digit (ds @ s) = s"
proof -
  have s: "takeWhile digit s = []" "dropWhile digit s = s"
    using assms(2) by (cases s; simp)+
  show "takeWhile digit (ds @ s) = ds" using assms(1) s by (simp add: takeWhile_append2)
  show "dropWhile digit (ds @ s) = s" using assms(1) s by (simp add: dropWhile_append2)
qed

lemma calverPrefix_shape:
  assumes d: "digit y1" "digit y2" "digit m1" "digit m2"
    and third: "third \<noteq> []" "\<forall>c\<in>set third. digit c"
    and tail: "tail = [] \<or> (\<exists>fourth. tail = CHR ''.'' # fourth \<and> fourth \<noteq> []
                  \<and> (\<forall>c\<in>set fourth. digit c))"
    and s: "s = [] \<or> (\<not> digit (hd s) \<and> hd s \<noteq> CHR ''.'')"
  shows "calverPrefix (y1 # y2 # CHR ''.'' # m1 # m2 # CHR ''.'' # third @ tail @ s)
       = Some (y1 # y2 # CHR ''.'' # m1 # m2 # CHR ''.'' # third @ tail, s)"
proof (cases "tail = []")
  case True
  have "s = [] \<or> \<not> digit (hd s)" using s by blast
  note ds = digits_then [OF third(2) this]
  have "\<not> startsWith s ''.''" using s by (cases s) (auto simp: startsWith_def)
  then show ?thesis using True d third(1) ds by (simp add: calverPrefix_def)
next
  case False
  with tail obtain fourth where f: "tail = CHR ''.'' # fourth" "fourth \<noteq> []"
    "\<forall>c\<in>set fourth. digit c"
    by blast
  have nd: "\<not> digit (CHR ''.'')" using digit_not_dot by blast
  have "CHR ''.'' # fourth @ s = [] \<or> \<not> digit (hd (CHR ''.'' # fourth @ s))"
    using nd by simp
  note d1 = digits_then [OF third(2) this]
  have "s = [] \<or> \<not> digit (hd s)" using s by blast
  note d2 = digits_then [OF f(3) this]
  show ?thesis using d third(1) f(1,2) d1 d2
    by (simp add: calverPrefix_def startsWith_def)
qed

lemma calverMatch_shape:
  assumes "calverMatch t"
  shows "\<exists>y1 y2 m1 m2 third tail.
           t = y1 # y2 # CHR ''.'' # m1 # m2 # CHR ''.'' # third @ tail
         \<and> digit y1 \<and> digit y2 \<and> digit m1 \<and> digit m2
         \<and> third \<noteq> [] \<and> (\<forall>c\<in>set third. digit c)
         \<and> (tail = [] \<or> (\<exists>fourth. tail = CHR ''.'' # fourth \<and> fourth \<noteq> []
                  \<and> (\<forall>c\<in>set fourth. digit c)))"
proof -
  from assms obtain y1 y2 m1 m2 rest where t: "t = y1 # y2 # CHR ''.'' # m1 # m2 # CHR ''.'' # rest"
    and d: "digit y1" "digit y2" "digit m1" "digit m2"
    and third: "takeWhile digit rest \<noteq> []"
    by (auto simp: calverMatch_def calverPrefix_def split: list.splits if_splits)
  define third where "third = takeWhile digit rest"
  define after where "after = dropWhile digit rest"
  have rest: "rest = third @ after" by (simp add: third_def after_def)
  have td: "\<forall>c\<in>set third. digit c" unfolding third_def by (auto dest: set_takeWhileD)
  have cp: "calverPrefix t =
      (if startsWith after ''.'' \<and> takeWhile digit (tl after) \<noteq> []
       then Some ([y1, y2, CHR ''.'', m1, m2, CHR ''.''] @ third @ ''.''
                    @ takeWhile digit (tl after), dropWhile digit (tl after))
       else Some ([y1, y2, CHR ''.'', m1, m2, CHR ''.''] @ third, after))"
    using d third unfolding t after_def third_def by (simp add: calverPrefix_def Let_def)
  have tail: "after = [] \<or> (\<exists>fourth. after = CHR ''.'' # fourth \<and> fourth \<noteq> []
                  \<and> (\<forall>c\<in>set fourth. digit c))"
  proof (cases "startsWith after ''.'' \<and> takeWhile digit (tl after) \<noteq> []")
    case True
    with assms cp have "dropWhile digit (tl after) = []" by (simp add: calverMatch_def)
    then have a: "\<forall>c\<in>set (tl after). digit c" by (simp add: dropWhile_eq_Nil_conv)
    from True have "after = CHR ''.'' # tl after"
      by (cases after) (auto simp: startsWith_def)
    moreover from True have "tl after \<noteq> []" by auto
    ultimately show ?thesis using a by blast
  next
    case False
    with assms cp have "after = []" by (simp add: calverMatch_def)
    then show ?thesis by simp
  qed
  from t rest d third td tail show ?thesis unfolding third_def [symmetric] by blast
qed

lemma calverMatch_followed:
  assumes "calverMatch t" and "\<not> digit c" and "c \<noteq> CHR ''.''"
  shows "calverPrefix (t @ c # x) = Some (t, c # x)"
proof -
  from calverMatch_shape [OF assms(1)] obtain y1 y2 m1 m2 third tail where
    t: "t = y1 # y2 # CHR ''.'' # m1 # m2 # CHR ''.'' # third @ tail"
    and d: "digit y1" "digit y2" "digit m1" "digit m2"
    and third: "third \<noteq> []" "\<forall>c\<in>set third. digit c"
    and tail: "tail = [] \<or> (\<exists>fourth. tail = CHR ''.'' # fourth \<and> fourth \<noteq> []
                  \<and> (\<forall>c\<in>set fourth. digit c))"
    by blast
  have s: "c # x = [] \<or> (\<not> digit (hd (c # x)) \<and> hd (c # x) \<noteq> CHR ''.'')"
    using assms(2,3) by simp
  from calverPrefix_shape [OF d third tail s] show ?thesis by (simp add: t)
qed

lemma calverMatch_chars:
  assumes "calverMatch t"
  shows "\<forall>c\<in>set t. digit c \<or> c = CHR ''.''"
proof -
  from calverMatch_shape [OF assms] obtain y1 y2 m1 m2 third tail where
    t: "t = y1 # y2 # CHR ''.'' # m1 # m2 # CHR ''.'' # third @ tail"
    and d: "digit y1" "digit y2" "digit m1" "digit m2"
    and third: "third \<noteq> []" "\<forall>c\<in>set third. digit c"
    and tail: "tail = [] \<or> (\<exists>fourth. tail = CHR ''.'' # fourth \<and> fourth \<noteq> []
                  \<and> (\<forall>c\<in>set fourth. digit c))"
    by blast
  have "\<forall>c\<in>set tail. digit c \<or> c = CHR ''.''" using tail by auto
  then show ?thesis using d third(2) unfolding t by auto
qed

lemma calverMatch_yearMonth:
  assumes "calverMatch t"
  shows "\<exists>y1 y2 m1 m2. yearMonthOf t = [y1, y2, CHR ''.'', m1, m2]
           \<and> digit y1 \<and> digit y2 \<and> digit m1 \<and> digit m2"
    and "startsWith t (yearMonthOf t)"
proof -
  from assms obtain y1 y2 m1 m2 rest where v: "t = y1 # y2 # CHR ''.'' # m1 # m2 # CHR ''.'' # rest"
    and d: "digit y1" "digit y2" "digit m1" "digit m2"
    by (auto simp: calverMatch_def calverPrefix_def split: list.splits if_splits)
  from d have n: "y1 \<noteq> CHR ''.''" "y2 \<noteq> CHR ''.''" "m1 \<noteq> CHR ''.''" "m2 \<noteq> CHR ''.''"
    using digit_not_dot by blast+
  have "splitDots t = [y1, y2] # [m1, m2] # splitDots rest"
    using n by (simp add: v splitDots_def)
  then have ym: "yearMonthOf t = [y1, y2, CHR ''.'', m1, m2]"
    by (simp add: yearMonthOf_def)
  with d show "\<exists>y1 y2 m1 m2. yearMonthOf t = [y1, y2, CHR ''.'', m1, m2]
           \<and> digit y1 \<and> digit y2 \<and> digit m1 \<and> digit m2"
    by blast
  show "startsWith t (yearMonthOf t)" unfolding ym by (simp add: v startsWith_def)
qed

lemma toString_not_Nil: "toString n \<noteq> []"
  by (subst toString.simps) simp

lemma calverMatch_three:
  assumes "digit y1" "digit y2" "digit m1" "digit m2"
  shows "calverMatch ([y1, y2, CHR ''.'', m1, m2] @ CHR ''.'' # toString n)"
proof -
  have a: "[] = [] \<or> (\<exists>fourth. [] = CHR ''.'' # fourth \<and> fourth \<noteq> []
                  \<and> (\<forall>c\<in>set fourth. digit c))" by simp
  have s: "[] = [] \<or> (\<not> digit (hd []) \<and> hd [] \<noteq> CHR ''.'')" by simp
  from calverPrefix_shape [OF assms toString_not_Nil toString_digits a s, of n]
  show ?thesis by (simp add: calverMatch_def)
qed

lemma calverMatch_four:
  assumes "digit y1" "digit y2" "digit m1" "digit m2"
  shows "calverMatch ([y1, y2, CHR ''.'', m1, m2] @ CHR ''.'' # toString a @ CHR ''.'' # toString b)"
proof -
  have a: "CHR ''.'' # toString b = [] \<or> (\<exists>fourth. CHR ''.'' # toString b = CHR ''.'' # fourth
       \<and> fourth \<noteq> [] \<and> (\<forall>c\<in>set fourth. digit c))"
    using toString_not_Nil toString_digits by simp
  have s: "[] = [] \<or> (\<not> digit (hd []) \<and> hd [] \<noteq> CHR ''.'')" by simp
  from calverPrefix_shape [OF assms toString_not_Nil toString_digits a s, of a]
  show ?thesis by (simp add: calverMatch_def)
qed

lemma digit_not_backslash: "digit c \<Longrightarrow> c \<noteq> CHR 0x5C"
  by (auto simp: digit_def)

lemma tagLine_no_backslash:
  assumes "calverMatch t" and "CHR 0x5C \<notin> set n"
  shows "CHR 0x5C \<notin> set (tagLine t n)"
proof -
  have "CHR 0x5C \<notin> set t" using calverMatch_chars [OF assms(1)] digit_not_backslash by auto
  then show ?thesis using assms(2) by (simp add: tagLine_def)
qed

lemma existingTags_first_line:
  assumes "packagePath \<noteq> ''.''" and "basename packagePath = n" and "n \<noteq> []"
    and "CHR 0x5C \<notin> set n" and "CHR 0x5C \<notin> set rest" and "calverMatch t"
  shows "existingTags (Some (tagLine t n @ rest)) packagePath = [t]"
proof -
  let ?out = "tagLine t n @ rest"
  have nb: "CHR 0x5C \<notin> set ?out" using tagLine_no_backslash [OF assms(6,4)] assms(5) by simp
  have whole: "splitBackslashN ?out = [?out]" using nb by (rule splitBackslashN_whole)
  have "\<not> js_space (CHR ''v'')" by (simp add: js_space_def)
  then have "\<not> blank (CHR ''v'' # CHR ''-'' # t @ ''-'' @ n @ ''-release'' @ [CHR 0x0A] @ rest)"
    by (rule not_blank_Cons)
  then have nbl: "\<not> blank ?out" by (simp add: tagLine_def)
  have "?out = (''v-'' @ t) @ (''-'' @ n @ ''-release'') @ (CHR 0x0A # rest)"
    by (simp add: tagLine_def)
  then have inc: "str_includes ?out (''-'' @ n @ ''-release'')"
    unfolding str_includes_iff by blast
  have nd: "\<not> digit (CHR ''-'')" by (simp add: digit_def)
  have "calverPrefix (t @ CHR ''-'' # n @ ''-release'' @ [CHR 0x0A] @ rest)
      = Some (t, CHR ''-'' # n @ ''-release'' @ [CHR 0x0A] @ rest)"
    using assms(6) nd by (rule calverMatch_followed) simp
  then have ver: "versionOfTag ?out = Some t"
    by (simp add: versionOfTag_def tagLine_def startsWith_def)
  show ?thesis
    unfolding existingTags_def
    using assms(1,2,3,6) whole nbl inc ver by (simp add: Let_def)
qed





subsection \<open>Monotonicity of the emitted versions\<close>

lemma no_roll_target:
  assumes "\<not> autoRolled env packagePath options"
  shows "\<not> (truthy (autoUpdateMonth options)
            \<and> js_less (targetOf env packagePath options) (currentYearMonth (now env)))"
proof (cases "packageYearMonth (packageVersion env packagePath)")
  case None
  then show ?thesis by (simp add: targetOf_def targetYearMonth_def js_less_irrefl)
next
  case (Some y)
  with assms show ?thesis
    by (auto simp: targetOf_def targetYearMonth_def autoRolled_def isAutoMonthUpdate_def)
qed

lemma declared_after_release:
  assumes "calverMatch v"
    and "\<not> (truthy (autoUpdateMonth options) \<and> js_less (yearMonthOf v) (currentYearMonth (now env)))"
    and "packageVersion env packagePath = Some v"
  shows "targetOf env packagePath options = yearMonthOf v"
    and "\<not> autoRolled env packagePath options"
proof -
  have "v \<noteq> []" using assms(1) calverMatch_Nil by auto
  then have p: "packageYearMonth (packageVersion env packagePath) = Some (yearMonthOf v)"
    using assms(1,3) by (simp add: packageYearMonth_def)
  show "targetOf env packagePath options = yearMonthOf v"
    using p assms(2) by (auto simp: targetOf_def targetYearMonth_def)
  show "\<not> autoRolled env packagePath options"
    using p assms(2) by (auto simp: autoRolled_def isAutoMonthUpdate_def)
qed

lemma release_step:
  assumes P: "packagePath \<noteq> ''.''" "basename packagePath = n" "n \<noteq> []" "CHR 0x5C \<notin> set n"
    and T: "tagList (commands env) = Some (tagLine t n @ rest)" "CHR 0x5C \<notin> set rest"
    and t: "calverMatch t" "yearMonthOf t = targetOf env packagePath options"
      "length (splitDots t) = (if threePart options then 3 else 4)"
    and R: "\<not> autoRolled env packagePath options"
  shows "tupleOf (generateCalVerVersion env rt packagePath options)
           = nextTuple rt (threePart options) [t]"
    and "tupleLess (tupleOf t) (tupleOf (generateCalVerVersion env rt packagePath options))"
    and "calverMatch (generateCalVerVersion env rt packagePath options)"
    and "yearMonthOf (generateCalVerVersion env rt packagePath options)
           = targetOf env packagePath options"
    and "length (splitDots (generateCalVerVersion env rt packagePath options))
           = (if threePart options then 3 else 4)"
proof -
  define auto where "auto = truthy (autoUpdateMonth options)"
  define pv where "pv = packageVersion env packagePath"
  define target where "target = targetYearMonth auto (currentYearMonth (now env)) pv"
  define v where "v = generateCalVerVersion env rt packagePath options"
  have tg: "targetOf env packagePath options = target"
    by (simp add: targetOf_def target_def auto_def pv_def)
  have tags: "existingTags (tagList (commands env)) packagePath = [t]"
    unfolding T(1) using P T(2) t(1) by (rule existingTags_first_line)
  have g: "v = newVersion rt (threePart options) auto (currentYearMonth (now env)) pv [t]"
    by (simp add: v_def generateCalVerVersion_def threePart_def auto_def pv_def tags)
  have noRoll: "\<not> isAutoMonthUpdate auto (currentYearMonth (now env)) pv"
    using R by (simp add: autoRolled_def auto_def pv_def)
  have noBump: "\<not> isManualBump auto (currentYearMonth (now env)) pv [t]"
    using t(2) tg by (simp add: isManualBump_def target_def split: option.splits)
  have st: "startsWith t target" using calverMatch_yearMonth(2) [OF t(1)] t(2) tg by simp
  have mt: "currentMonthTags (threePart options) auto (currentYearMonth (now env)) pv [t] = [t]"
    using st t(3) by (simp add: currentMonthTags_def target_def)
  obtain y1 y2 m1 m2 where ym: "target = [y1, y2, CHR ''.'', m1, m2]"
    and d: "digit y1" "digit y2" "digit m1" "digit m2"
    using calverMatch_yearMonth(1) [OF t(1)] t(2) tg by auto
  obtain y m where sp: "splitDots target = [y, m]"
    using target_parts [of auto "now env" pv] pair_of_length_2 unfolding target_def by blast
  have facts: "tupleOf v = nextTuple rt (threePart options) [t] \<and> calverMatch v
      \<and> yearMonthOf v = target \<and> length (splitDots v) = (if threePart options then 3 else 4)"
  proof (cases "threePart options")
    case True
    have mt': "currentMonthTags True auto (currentYearMonth (now env)) pv [t] = [t]"
      using mt True by simp
    have e: "v = target @ CHR ''.'' # toString (snd (nextTuple rt True [t]))"
      using newVersion_three [OF noRoll noBump, of rt] True by (simp add: g mt' target_def)
    have n: "nextTuple rt True [t] = (0, snd (nextTuple rt True [t]))"
      by (simp add: nextTuple_def)
    have c: "calverMatch v" unfolding e ym using d by (rule calverMatch_three)
    from e n c True three_part_version [OF sp] show ?thesis by simp
  next
    case False
    have mt': "currentMonthTags False auto (currentYearMonth (now env)) pv [t] = [t]"
      using mt False by simp
    have e: "v = target @ CHR ''.'' # toString (fst (nextTuple rt False [t]))
             @ CHR ''.'' # toString (snd (nextTuple rt False [t]))"
      using newVersion_four [OF noRoll noBump, of rt] False by (simp add: g mt' target_def)
    have c: "calverMatch v" unfolding e ym using d by (rule calverMatch_four)
    from e c False four_part_version [OF sp] show ?thesis by simp
  qed
  show "tupleOf (generateCalVerVersion env rt packagePath options)
           = nextTuple rt (threePart options) [t]"
    using facts by (simp add: v_def)
  have "threePart options \<longrightarrow> length (splitDots (hd [t])) = 3" using t(3) by simp
  from nextTuple_greater [OF _ this, of rt]
  show "tupleLess (tupleOf t) (tupleOf (generateCalVerVersion env rt packagePath options))"
    using facts by (simp add: v_def)
  show "calverMatch (generateCalVerVersion env rt packagePath options)"
    using facts by (simp add: v_def)
  show "yearMonthOf (generateCalVerVersion env rt packagePath options)
           = targetOf env packagePath options"
    using facts tg by (simp add: v_def)
  show "length (splitDots (generateCalVerVersion env rt packagePath options))
           = (if threePart options then 3 else 4)"
    using facts by (simp add: v_def)
qed

lemma nextTuple_bounds:
  "fst (nextTuple rt three [t]) \<le> fst (tupleOf t) + 1"
  "snd (nextTuple rt three [t]) \<le> snd (tupleOf t) + 1"
  by (simp_all add: nextTuple_def)

lemma recordRelease_reads:
  assumes "name pkg \<noteq> []" and "name pkg \<noteq> ''root''"
    and "tagList (commands env) = Some out"
  shows "tagList (commands (recordRelease env pkg v)) = Some (tagLine v (name pkg) @ out)"
    and "packageVersion (recordRelease env pkg v) (path pkg) = Some v"
    and "now (recordRelease env pkg v) = now env"
  using assms by (simp_all add: recordRelease_def tagName_def tagLine_def)

lemma releases_increase:
  assumes fixed: "path pkg \<noteq> ''.''" "basename (path pkg) = name pkg" "name pkg \<noteq> []"
      "name pkg \<noteq> ''root''" "CHR 0x5C \<notin> set (name pkg)" "\<not> truthy (dryRun options)"
  shows "tagList (commands env) = Some (tagLine t (name pkg) @ rest) \<Longrightarrow>
     CHR 0x5C \<notin> set rest \<Longrightarrow> calverMatch t \<Longrightarrow>
     yearMonthOf t = target \<Longrightarrow> targetOf env (path pkg) options = target \<Longrightarrow>
     length (splitDots t) = (if threePart options then 3 else 4) \<Longrightarrow>
     \<not> autoRolled env (path pkg) options \<Longrightarrow>
     fst (tupleOf t) + length logs < bound \<Longrightarrow> snd (tupleOf t) + length logs < bound \<Longrightarrow>
     sorted_wrt (\<lambda>a b. tupleLess (tupleOf a) (tupleOf b)) (t # releases env pkg options logs)
     \<and> (\<forall>v\<in>set (releases env pkg options logs).
          yearMonthOf v = target \<and> length (splitDots v) = (if threePart options then 3 else 4)
          \<and> fst (tupleOf v) < bound \<and> snd (tupleOf v) < bound)"
proof (induction logs arbitrary: env t rest)
  case Nil
  then show ?case by simp
next
  case (Cons commits logs)
  let ?less = "\<lambda>a b. tupleLess (tupleOf a) (tupleOf b)"
  let ?good = "\<lambda>v. yearMonthOf v = target
      \<and> length (splitDots v) = (if threePart options then 3 else 4)
      \<and> fst (tupleOf v) < bound \<and> snd (tupleOf v) < bound"
  have b: "fst (tupleOf t) + length logs < bound" "snd (tupleOf t) + length logs < bound"
    using Cons.prems(8,9) by simp_all
  show ?case
  proof (cases "\<exists>analysis. analyzeCommits commits (path pkg) = Some analysis
      \<and> shouldRelease analysis")
    case False
    then have p: "processPackageRelease env pkg commits options = (None, env)"
      by (auto simp: processPackageRelease_def split: option.splits)
    from Cons.IH [OF Cons.prems(1-7) b] show ?thesis by (simp add: p)
  next
    case True
    then obtain analysis where a: "analyzeCommits commits (path pkg) = Some analysis"
      "shouldRelease analysis"
      by blast
    define v where "v = generateCalVerVersion env (releaseType analysis) (path pkg) options"
    define env' where "env' = recordRelease env pkg v"
    have p: "processPackageRelease env pkg commits options = (Some v, env')"
      using a fixed(6) by (simp add: processPackageRelease_def v_def env'_def Let_def)
    have ty: "yearMonthOf t = targetOf env (path pkg) options" using Cons.prems(4,5) by simp
    note step = release_step [OF fixed(1,2,3,5) Cons.prems(1,2,3) ty Cons.prems(6,7),
        of "releaseType analysis", folded v_def]
    have tv: "tupleLess (tupleOf t) (tupleOf v)" by (rule step(2))
    have yv: "yearMonthOf v = target" using step(4) Cons.prems(5) by simp
    have r: "tagList (commands env') = Some (tagLine v (name pkg) @ tagLine t (name pkg) @ rest)"
      "packageVersion env' (path pkg) = Some v" "now env' = now env"
      unfolding env'_def using recordRelease_reads [OF fixed(3,4) Cons.prems(1)] by simp_all
    have nb: "CHR 0x5C \<notin> set (tagLine t (name pkg) @ rest)"
      using tagLine_no_backslash [OF Cons.prems(3) fixed(5)] Cons.prems(2) by simp
    have nr: "\<not> (truthy (autoUpdateMonth options)
            \<and> js_less (yearMonthOf v) (currentYearMonth (now env')))"
      using no_roll_target [OF Cons.prems(7)] yv Cons.prems(5) r(3) by simp
    note after = declared_after_release [OF step(3) nr r(2)]
    have bv: "fst (tupleOf v) + length logs < bound" "snd (tupleOf v) + length logs < bound"
      using nextTuple_bounds [of "releaseType analysis" "threePart options" t] step(1)
        Cons.prems(8,9)
      by simp_all
    have tgt: "targetOf env' (path pkg) options = target" using after(1) yv by simp
    from Cons.IH [OF r(1) nb step(3) yv tgt step(5) after(2) bv]
    have ih: "sorted_wrt ?less (v # releases env' pkg options logs)"
      "\<forall>w\<in>set (releases env' pkg options logs). ?good w"
      by blast+
    have "\<forall>w\<in>set (releases env' pkg options logs). ?less t w"
      using ih(1) tv tupleLess_trans by auto
    moreover have "?good v" using yv step(5) bv by simp
    ultimately show ?thesis using ih tv by (simp add: p)
  qed
qed

text \<open>
  Claim C2, as amended. Take a package of a monorepo whose name is the basename of its
  path, outside a dry run, and a tag output of git whose first line is the tag of that
  package for a version \<open>t\<close> of the target year-month and of the active format; git lists
  the highest version first. Let no auto-roll occur, and let the counters stay below
  \<open>2 ^ 53\<close>. Then the versions emitted by successive runs of \<open>processPackageRelease\<close>, each
  run reading the tags and the declared version that the runs before it have recorded,
  are strictly increasing in tuple order and all strictly greater than \<open>t\<close>; every one of
  them has the target year-month and the active format, and its counters are below
  \<open>2 ^ 53\<close>.
\<close>

theorem released_versions_increase:
  assumes "path pkg \<noteq> ''.''" and "basename (path pkg) = name pkg"
    and "name pkg \<noteq> []" and "name pkg \<noteq> ''root''" and "CHR 0x5C \<notin> set (name pkg)"
    and "\<not> truthy (dryRun options)"
    and "tagList (commands env) = Some (tagLine t (name pkg) @ rest)"
    and "CHR 0x5C \<notin> set rest"
    and "calverMatch t"
    and "yearMonthOf t = targetOf env (path pkg) options"
    and "length (splitDots t) = (if threePart options then 3 else 4)"
    and "\<not> autoRolled env (path pkg) options"
    and "fst (tupleOf t) + length logs < 2 ^ 53"
    and "snd (tupleOf t) + length logs < 2 ^ 53"
  shows "sorted_wrt (\<lambda>a b. tupleLess (tupleOf a) (tupleOf b))
           (t # releases env pkg options logs)
       \<and> (\<forall>v\<in>set (releases env pkg options logs).
            yearMonthOf v = targetOf env (path pkg) options
          \<and> length (splitDots v) = (if threePart options then 3 else 4)
          \<and> fst (tupleOf v) < 2 ^ 53 \<and> snd (tupleOf v) < 2 ^ 53)"
  using releases_increase [OF assms(1-9) assms(10) refl assms(11-14)] assms(10) by simp

theorem released_versions_increase_witness:
  "releases releasedEnv corePackage fourPartOptions
       [''a1b2c3d fix: x'', ''b2c3d4e feat: y'', ''c3d4e5f chore: z'', ''d4e5f6a fix(core): w'']
     = [''25.07.0.2'', ''25.07.1.1'', ''25.07.1.2'']
   \<and> tagList (commands releasedEnv) = Some (tagLine ''25.07.0.1'' (name corePackage) @ [])
   \<and> sorted_wrt (\<lambda>a b. tupleLess (tupleOf a) (tupleOf b))
       (''25.07.0.1'' # releases releasedEnv corePackage fourPartOptions
          [''a1b2c3d fix: x'', ''b2c3d4e feat: y'', ''c3d4e5f chore: z'',
           ''d4e5f6a fix(core): w''])"
proof -
  let ?logs = "[''a1b2c3d fix: x'', ''b2c3d4e feat: y'', ''c3d4e5f chore: z'',
      ''d4e5f6a fix(core): w'']"
  define env1 where "env1 = recordRelease releasedEnv corePackage ''25.07.0.2''"
  define env2 where "env2 = recordRelease env1 corePackage ''25.07.1.1''"
  have d: "\<not> truthy (dryRun fourPartOptions)" by code_simp
  have a1: "analyzeCommits ''a1b2c3d fix: x'' (path corePackage) = Some \<lparr> hasFeature = False,
      hasFix = True, hasBreakingChange = False, releaseCommits = [(Bug, ''fix: x'')],
      shouldRelease = True, releaseType = Patch \<rparr>"
    by code_simp
  have a2: "analyzeCommits ''b2c3d4e feat: y'' (path corePackage) = Some \<lparr> hasFeature = True,
      hasFix = False, hasBreakingChange = False, releaseCommits = [(Sparkles, ''feat: y'')],
      shouldRelease = True, releaseType = Minor \<rparr>"
    by code_simp
  have a3: "analyzeCommits ''c3d4e5f chore: z'' (path corePackage) = None"
    by code_simp
  have a4: "analyzeCommits ''d4e5f6a fix(core): w'' (path corePackage) = Some \<lparr>
      hasFeature = False, hasFix = True, hasBreakingChange = False,
      releaseCommits = [(Bug, ''fix(core): w'')], shouldRelease = True, releaseType = Patch \<rparr>"
    by code_simp
  have g1: "generateCalVerVersion releasedEnv Patch (path corePackage) fourPartOptions
      = ''25.07.0.2''"
    by code_simp
  have g2: "generateCalVerVersion env1 Minor (path corePackage) fourPartOptions = ''25.07.1.1''"
    unfolding env1_def by code_simp
  have g4: "generateCalVerVersion env2 Patch (path corePackage) fourPartOptions = ''25.07.1.2''"
    unfolding env2_def env1_def by code_simp
  have s1: "processPackageRelease releasedEnv corePackage ''a1b2c3d fix: x'' fourPartOptions
      = (Some ''25.07.0.2'', env1)"
    by (simp add: processPackageRelease_def a1 g1 d env1_def Let_def)
  have s2: "processPackageRelease env1 corePackage ''b2c3d4e feat: y'' fourPartOptions
      = (Some ''25.07.1.1'', env2)"
    by (simp add: processPackageRelease_def a2 g2 d env2_def Let_def)
  have s3: "processPackageRelease env2 corePackage ''c3d4e5f chore: z'' fourPartOptions
      = (None, env2)"
    by (simp add: processPackageRelease_def a3)
  have s4: "processPackageRelease env2 corePackage ''d4e5f6a fix(core): w'' fourPartOptions
      = (Some ''25.07.1.2'', recordRelease env2 corePackage ''25.07.1.2'')"
    by (simp add: processPackageRelease_def a4 g4 d Let_def)
  have e: "releases releasedEnv corePackage fourPartOptions ?logs
     = [''25.07.0.2'', ''25.07.1.1'', ''25.07.1.2'']"
    by (simp add: s1 s2 s3 s4)
  have p: "path corePackage \<noteq> ''.''" "name corePackage \<noteq> []" "name corePackage \<noteq> ''root''"
    "CHR 0x5C \<notin> set (name corePackage)"
    by (simp_all add: corePackage_def)
  have b: "basename (path corePackage) = name corePackage" by code_simp
  have l: "tagList (commands releasedEnv) = Some (tagLine ''25.07.0.1'' (name corePackage) @ [])"
    by (simp add: releasedEnv_def noGit_def tagLine_def corePackage_def)
  have r: "CHR 0x5C \<notin> set []" by simp
  have c: "calverMatch ''25.07.0.1''" by code_simp
  have y: "yearMonthOf ''25.07.0.1'' = targetOf releasedEnv (path corePackage) fourPartOptions"
    by code_simp
  have f: "length (splitDots ''25.07.0.1'') = (if threePart fourPartOptions then 3 else 4)"
    by code_simp
  have a: "\<not> autoRolled releasedEnv (path corePackage) fourPartOptions" by code_simp
  have t: "tupleOf ''25.07.0.1'' = (0, 1)" by code_simp
  have n: "fst (tupleOf ''25.07.0.1'') + length ?logs < 2 ^ 53"
    "snd (tupleOf ''25.07.0.1'') + length ?logs < 2 ^ 53"
    by (simp_all add: t)
  from released_versions_increase [OF p(1) b p(2,3,4) d l r c y f a n]
  have "sorted_wrt (\<lambda>a b. tupleLess (tupleOf a) (tupleOf b))
       (''25.07.0.1'' # releases releasedEnv corePackage fourPartOptions ?logs)"
    by blast
  with e l show ?thesis by blast
qed

text \<open>
  Claim C2 as stated fails: an auto-roll emits the first release of the month whatever
  tags exist. With the declared version \<open>25.07.0.3\<close>, \<open>autoUpdateMonth\<close> enabled, the
  current month \<open>25.08\<close> and the existing tag \<open>v-25.08.0.1-core-release\<close>, the resolver emits
  \<open>25.08.0.1\<close>, a tuple already present among the tags of that year-month and format.
\<close>

theorem auto_roll_repeats_first_release:
  "generateCalVerVersion staleEnv Patch ''packages/core'' rollOptions = ''25.08.0.1''
   \<and> ''25.08.0.1'' \<in> set (candidateTags staleEnv ''packages/core'' rollOptions)
   \<and> tagList (commands staleEnv) = Some (tagLine ''25.08.0.1'' ''core'')
   \<and> autoRolled staleEnv ''packages/core'' rollOptions"
  by code_simp

subsection \<open>The default configuration\<close>

lemma newVersion_three_text:
  "\<exists>n. newVersion rt True autoUpdate current pv tags
         = targetYearMonth autoUpdate current pv @ CHR ''.'' # toString n"
proof (cases "length (currentMonthTags True autoUpdate current pv tags) = 0
    \<or> isManualBump autoUpdate current pv tags \<or> isAutoMonthUpdate autoUpdate current pv")
  case True
  then have "newVersion rt True autoUpdate current pv tags
      = targetYearMonth autoUpdate current pv @ CHR ''.'' # toString 1"
    unfolding newVersion_def Let_def by (simp add: toString_Suc_0)
  then show ?thesis by blast
next
  case False
  then have "newVersion rt True autoUpdate current pv tags
      = targetYearMonth autoUpdate current pv @ CHR ''.'' #
          toString (map numberOf (splitDots (currentMonthTags True autoUpdate current pv tags ! 0)) ! 2 + 1)"
    unfolding newVersion_def Let_def by simp
  then show ?thesis by blast
qed

lemma default_run_three_parts:
  "determineVersionFormat options = ''YY.MM.PATCH'' \<Longrightarrow>
   length (splitDots (generateCalVerVersion env rt packagePath options)) = 3"
proof -
  assume f: "determineVersionFormat options = ''YY.MM.PATCH''"
  have g: "generateCalVerVersion env rt packagePath options
      = newVersion rt True (truthy (autoUpdateMonth options)) (currentYearMonth (now env))
          (packageVersion env packagePath) (existingTags (tagList (commands env)) packagePath)"
    using f by (simp add: generateCalVerVersion_def)
  obtain n where n: "generateCalVerVersion env rt packagePath options
      = targetYearMonth (truthy (autoUpdateMonth options)) (currentYearMonth (now env))
          (packageVersion env packagePath) @ CHR ''.'' # toString n"
    unfolding g
    using newVersion_three_text [of rt "truthy (autoUpdateMonth options)"
        "currentYearMonth (now env)" "packageVersion env packagePath"
        "existingTags (tagList (commands env)) packagePath"]
    by blast
  obtain y m where "splitDots (targetYearMonth (truthy (autoUpdateMonth options))
      (currentYearMonth (now env)) (packageVersion env packagePath)) = [y, m]"
    using target_parts pair_of_length_2 by blast
  from three_part_version(2) [OF this] show ?thesis unfolding n by simp
qed

text \<open>
  Claim C10. When \<open>versionFormat\<close> is unset or \<open>auto\<close> and the plugin list is the one of the
  default configuration, \<open>determineVersionFormat\<close> returns the three-part format
  \<open>YY.MM.PATCH\<close>. The configuration that \<open>getConfig\<close> builds when no file, no
  \<^verbatim>\<open>package.json\<close> entry and no caller option overrides anything resolves to it as well, and
  every version resolved under that configuration has exactly three parts.
\<close>

theorem default_plugins_three_part:
  "((versionFormat options = None \<or> versionFormat options = Some ''auto'')
      \<and> plugins options = plugins defaults
     \<longrightarrow> determineVersionFormat options = ''YY.MM.PATCH'')
   \<and> determineVersionFormat (getConfig noOptions noOptions noOptions envDryRun) = ''YY.MM.PATCH''
   \<and> length (splitDots (generateCalVerVersion env rt packagePath
         (getConfig noOptions noOptions noOptions envDryRun))) = 3"
proof -
  have np: "plugins defaults \<noteq> None"
    by (simp add: defaults_def)
  have a: "determineVersionFormat options = ''YY.MM.PATCH''"
    if "versionFormat options = None \<or> versionFormat options = Some ''auto''"
      and "plugins options = plugins defaults"
    using that defaults_have_npm np by (auto simp: determineVersionFormat_def)
  have v: "versionFormat (getConfig noOptions noOptions noOptions envDryRun) = None"
    by (simp add: getConfig_def spread_def noOptions_def defaults_def Let_def)
  have p: "plugins (getConfig noOptions noOptions noOptions envDryRun) = plugins defaults"
    by (simp add: getConfig_def spread_def noOptions_def Let_def)
  have b: "determineVersionFormat (getConfig noOptions noOptions noOptions envDryRun) = ''YY.MM.PATCH''"
    using v p defaults_have_npm np by (simp add: determineVersionFormat_def)
  have c: "length (splitDots (generateCalVerVersion env rt packagePath
         (getConfig noOptions noOptions noOptions envDryRun))) = 3"
    using b by (rule default_run_three_parts)
  from a b c show ?thesis by blast
qed

theorem default_plugins_three_part_witness:
  "(versionFormat (defaults \<lparr> versionFormat := Some ''auto'' \<rparr>) = None
      \<or> versionFormat (defaults \<lparr> versionFormat := Some ''auto'' \<rparr>) = Some ''auto'')
   \<and> plugins (defaults \<lparr> versionFormat := Some ''auto'' \<rparr>) = plugins defaults
   \<and> determineVersionFormat (defaults \<lparr> versionFormat := Some ''auto'' \<rparr>) = ''YY.MM.PATCH''
   \<and> generateCalVerVersion freshEnv Major ''.'' (getConfig noOptions noOptions noOptions False)
       = ''25.08.1''"
proof -
  have g: "generateCalVerVersion freshEnv Major ''.'' (getConfig noOptions noOptions noOptions False)
       = ''25.08.1''"
    by code_simp
  from default_plugins_three_part [of "defaults \<lparr> versionFormat := Some ''auto'' \<rparr>" False
      freshEnv Major "''.''"] g
  show ?thesis by simp
qed

subsection \<open>Release orchestration\<close>

lemma runPluginsFrom_events:
  "runPluginsFrom i stage hooks arg results (ctx, trace) = (out, ctx', trace') \<Longrightarrow>
   \<exists>k lastRaise.
      trace' = trace
        @ map (\<lambda>j. Event stage (i + j) arg (if Suc j = k then lastRaise else None)) [0..<k]
      \<and> k \<le> length hooks
      \<and> (\<forall>j<k. answers (hooks ! j) arg (if Suc j = k then lastRaise else None))
      \<and> (case lastRaise of
           None \<Rightarrow> k = length hooks \<and> (\<exists>rs. out = Inr rs)
         | Some e \<Rightarrow> 0 < k \<and> out = Inl e)"
proof (induction hooks arbitrary: i results ctx trace)
  case Nil
  then have "trace' = trace
        @ map (\<lambda>j. Event stage (i + j) arg (if Suc j = 0 then None else None)) [0..<0]
      \<and> (0::nat) \<le> length ([] :: 'a Hook list)
      \<and> (\<forall>j<0. answers (([] :: 'a Hook list) ! j) arg (if Suc j = 0 then None else None))
      \<and> (case None :: Error option of
           None \<Rightarrow> (0::nat) = length ([] :: 'a Hook list) \<and> (\<exists>rs. out = Inr rs)
         | Some e \<Rightarrow> 0 < (0::nat) \<and> out = Inl e)"
    by auto
  then show ?case by blast
next
  case (Cons hook hooks)
  obtain outcome ctx2 where h: "hook ctx arg = (outcome, ctx2)" by (cases "hook ctx arg")
  show ?case
  proof (cases outcome)
    case (Raised e)
    with Cons.prems h have "out = Inl e" "trace' = trace @ [Event stage i arg (Some e)]"
      by simp_all
    moreover have "answers hook arg (Some e)"
      unfolding answers_def using h Raised by (intro exI [of _ ctx]) simp
    ultimately have "trace' = trace
        @ map (\<lambda>j. Event stage (i + j) arg (if Suc j = 1 then Some e else None)) [0..<1]
      \<and> 1 \<le> length (hook # hooks)
      \<and> (\<forall>j<1. answers ((hook # hooks) ! j) arg (if Suc j = 1 then Some e else None))
      \<and> (case Some e of
           None \<Rightarrow> 1 = length (hook # hooks) \<and> (\<exists>rs. out = Inr rs)
         | Some e \<Rightarrow> 0 < (1::nat) \<and> out = Inl e)"
      by simp
    then show ?thesis by blast
  next
    case (Returned result)
    with Cons.prems h have "runPluginsFrom (Suc i) stage hooks arg
        (case result of None \<Rightarrow> results | Some r \<Rightarrow> results @ [r])
        (ctx2, trace @ [Event stage i arg None]) = (out, ctx', trace')"
      by simp
    from Cons.IH [OF this] obtain k lastRaise where
      t: "trace' = (trace @ [Event stage i arg None])
            @ map (\<lambda>j. Event stage (Suc i + j) arg (if Suc j = k then lastRaise else None)) [0..<k]"
      and k: "k \<le> length hooks"
      and a: "\<forall>j<k. answers (hooks ! j) arg (if Suc j = k then lastRaise else None)"
      and l: "case lastRaise of
           None \<Rightarrow> k = length hooks \<and> (\<exists>rs. out = Inr rs)
         | Some e \<Rightarrow> 0 < k \<and> out = Inl e"
      by blast
    have z: "k = 0 \<Longrightarrow> lastRaise = None" using l by (cases lastRaise) simp_all
    have "map (\<lambda>j. Event stage (i + j) arg (if Suc j = Suc k then lastRaise else None)) [0..<Suc k]
        = Event stage i arg None
          # map (\<lambda>j. Event stage (Suc i + j) arg (if Suc j = k then lastRaise else None)) [0..<k]"
      using z by (simp add: upt_conv_Cons map_Suc_upt [symmetric] del: upt_Suc)
    with t have t': "trace' = trace
        @ map (\<lambda>j. Event stage (i + j) arg (if Suc j = Suc k then lastRaise else None)) [0..<Suc k]"
      by simp
    have h0: "answers hook arg None"
      unfolding answers_def using h Returned by (intro exI [of _ ctx]) simp
    have a': "\<forall>j<Suc k. answers ((hook # hooks) ! j) arg
        (if Suc j = Suc k then lastRaise else None)"
    proof (intro allI impI)
      fix j
      assume j: "j < Suc k"
      show "answers ((hook # hooks) ! j) arg (if Suc j = Suc k then lastRaise else None)"
      proof (cases j)
        case 0
        then show ?thesis using h0 z by simp
      next
        case (Suc j')
        with j have "j' < k" by simp
        with a have "answers (hooks ! j') arg (if Suc j' = k then lastRaise else None)" by blast
        then show ?thesis using Suc by simp
      qed
    qed
    have l': "case lastRaise of
           None \<Rightarrow> Suc k = length (hook # hooks) \<and> (\<exists>rs. out = Inr rs)
         | Some e \<Rightarrow> 0 < Suc k \<and> out = Inl e"
      using l by (cases lastRaise) simp_all
    from t' k a' l' have "trace' = trace
        @ map (\<lambda>j. Event stage (i + j) arg (if Suc j = Suc k then lastRaise else None)) [0..<Suc k]
      \<and> Suc k \<le> length (hook # hooks)
      \<and> (\<forall>j<Suc k. answers ((hook # hooks) ! j) arg
            (if Suc j = Suc k then lastRaise else None))
      \<and> (case lastRaise of
           None \<Rightarrow> Suc k = length (hook # hooks) \<and> (\<exists>rs. out = Inr rs)
         | Some e \<Rightarrow> 0 < Suc k \<and> out = Inl e)"
      by simp
    then show ?thesis by blast
  qed
qed

lemma failRun_events:
  assumes "failRun collection error (ctx0, trace0) = (out, ctx1, trace1)"
  shows "\<exists>k lastRaise. trace1 = trace0 @ failureEvents error k lastRaise
          \<and> k \<le> length (fail collection)
          \<and> (\<forall>j<k. answers (fail collection ! j) (Some error)
                (if Suc j = k then lastRaise else None))
          \<and> (case lastRaise of
               None \<Rightarrow> k = length (fail collection) \<and> out = Inl error
             | Some failError \<Rightarrow> 0 < k \<and> out = Inl failError)"
proof -
  obtain o1 c1 t1 where r: "runPluginsFrom 0 Fail (fail collection) (Some error) [] (ctx0, trace0)
      = (o1, c1, t1)"
    by (metis prod_cases3)
  from runPluginsFrom_events [OF r] obtain k lastRaise where
    t: "t1 = trace0 @ failureEvents error k lastRaise"
    and k: "k \<le> length (fail collection)"
    and a: "\<forall>j<k. answers (fail collection ! j) (Some error)
                (if Suc j = k then lastRaise else None)"
    and l: "case lastRaise of
           None \<Rightarrow> k = length (fail collection) \<and> (\<exists>rs. o1 = Inr rs)
         | Some e \<Rightarrow> 0 < k \<and> o1 = Inl e"
    unfolding failureEvents_def by auto
  have o: "trace1 = t1" "(\<exists>rs. o1 = Inr rs) \<longrightarrow> out = Inl error"
    "\<forall>e. o1 = Inl e \<longrightarrow> out = Inl e"
    using assms r by (auto simp: failRun_def runPlugins_def split: sum.splits)
  have "case lastRaise of
               None \<Rightarrow> k = length (fail collection) \<and> out = Inl error
             | Some failError \<Rightarrow> 0 < k \<and> out = Inl failError"
    using l o(2,3) by (cases lastRaise) simp_all
  with t k a o(1) show ?thesis by blast
qed

lemma runPluginsFrom_calm:
  "calm S trace \<Longrightarrow> stage \<in> S \<Longrightarrow>
   runPluginsFrom i stage hooks None results (ctx, trace) = (out, ctx', trace') \<Longrightarrow>
   (case out of Inr rs \<Rightarrow> calm S trace' | Inl e \<Rightarrow> broken S e trace')"
proof (induction hooks arbitrary: i results ctx trace)
  case Nil
  then show ?case by auto
next
  case (Cons hook hooks)
  obtain outcome ctx2 where h: "hook ctx None = (outcome, ctx2)" by (cases "hook ctx None")
  show ?case
  proof (cases outcome)
    case (Raised e)
    with Cons.prems h have "out = Inl e" "trace' = trace @ [Event stage i None (Some e)]"
      by simp_all
    then show ?thesis using Cons.prems(1,2) by (simp add: broken_def)
  next
    case (Returned result)
    with Cons.prems h have r: "runPluginsFrom (Suc i) stage hooks None
        (case result of None \<Rightarrow> results | Some r \<Rightarrow> results @ [r])
        (ctx2, trace @ [Event stage i None None]) = (out, ctx', trace')"
      by simp
    have c: "calm S (trace @ [Event stage i None None])"
      using Cons.prems(1,2) by (simp add: calm_def)
    show ?thesis by (rule Cons.IH [OF c Cons.prems(2) r])
  qed
qed

lemma runPlugins_calm:
  "calm S trace \<Longrightarrow> stage \<in> S \<Longrightarrow>
   runPlugins stage hooks None (ctx, trace) = (out, ctx', trace') \<Longrightarrow>
   (case out of Inr rs \<Rightarrow> calm S trace' | Inl e \<Rightarrow> broken S e trace')"
  unfolding runPlugins_def by (rule runPluginsFrom_calm)

lemma runPluginsFrom_keeps:
  "\<forall>hook\<in>set hooks. keepsDryRun hook \<Longrightarrow> truthy (dryRun (ctxOptions ctx)) \<Longrightarrow>
   truthy (dryRun (ctxOptions (fst (snd (runPluginsFrom i stage hooks arg results (ctx, trace))))))"
proof (induction hooks arbitrary: i results ctx trace)
  case Nil
  then show ?case by simp
next
  case (Cons hook hooks)
  obtain outcome ctx2 where h: "hook ctx arg = (outcome, ctx2)" by (cases "hook ctx arg")
  have "keepsDryRun hook" using Cons.prems(1) by simp
  then have k: "truthy (dryRun (ctxOptions ctx2))"
    using Cons.prems(2) h unfolding keepsDryRun_def by (metis snd_conv)
  show ?case
  proof (cases outcome)
    case (Raised e)
    then show ?thesis using h k by simp
  next
    case (Returned result)
    have "\<forall>hook\<in>set hooks. keepsDryRun hook" using Cons.prems(1) by simp
    from Cons.IH [OF this k] show ?thesis using h Returned by simp
  qed
qed

lemma runPlugins_keeps:
  "\<forall>hook\<in>set hooks. keepsDryRun hook \<Longrightarrow> truthy (dryRun (ctxOptions ctx)) \<Longrightarrow>
   runPlugins stage hooks arg (ctx, trace) = (out, ctx', trace') \<Longrightarrow>
   truthy (dryRun (ctxOptions ctx'))"
  using runPluginsFrom_keeps [of hooks ctx 0 stage arg "[]" trace]
  by (simp add: runPlugins_def)

lemma tryRelease_shape:
  assumes S: "VerifyConditions \<in> S" "VerifyRelease \<in> S" "GenerateNotes \<in> S"
    and D: "\<not> D \<longrightarrow> Prepare \<in> S \<and> Publish \<in> S \<and> Success \<in> S"
    and K: "D \<longrightarrow> truthy (dryRun (ctxOptions ctx))
        \<and> (\<forall>hook\<in>set (verifyConditions collection). keepsDryRun hook)
        \<and> (\<forall>hook\<in>set (verifyRelease collection). keepsDryRun hook)
        \<and> (\<forall>hook\<in>set (generateNotes collection). keepsDryRun hook)"
    and R: "tryRelease collection analyzeStep ctx = (out, ctx', trace)"
  shows "case out of
           Inr r \<Rightarrow> calm S trace \<and> (D \<longrightarrow> (\<forall>release releases. r \<noteq> Released release releases))
         | Inl e \<Rightarrow> broken S e trace"
proof -
  have c0: "calm S []" by (simp add: calm_def)
  obtain o1 ctx1 trace1 where
    r1: "runPlugins VerifyConditions (verifyConditions collection) None (ctx, []) = (o1, ctx1, trace1)"
    by (metis prod_cases3)
  note i1 = runPlugins_calm [OF c0 S(1) r1]
  have k1: "D \<Longrightarrow> truthy (dryRun (ctxOptions ctx1))"
    using K runPlugins_keeps [OF _ _ r1] by blast
  show ?thesis
  proof (cases o1)
    case (Inl error)
    then have "out = Inl error" "trace = trace1" using R by (simp_all add: tryRelease_def r1)
    with i1 Inl show ?thesis by simp
  next
    case o1: (Inr x1)
    with i1 have c1: "calm S trace1" by simp
    show ?thesis
    proof (cases "analyzeStep ctx1")
      case (Inl error)
      then have "out = Inl error" "trace = trace1" using R by (simp_all add: tryRelease_def r1 o1)
      with c1 show ?thesis by (simp add: broken_def)
    next
      case an: (Inr analysis)
      show ?thesis
      proof (cases "stepShouldRelease analysis")
        case False
        then have "out = Inr NoRelease" "trace = trace1"
          using R by (simp_all add: tryRelease_def r1 o1 an)
        with c1 show ?thesis by simp
      next
        case rel: True
        obtain o2 ctx2 trace2 where
          r2: "runPlugins VerifyRelease (verifyRelease collection) None
                 (ctx1 \<lparr> nextRelease := stepNextRelease analysis \<rparr>, trace1) = (o2, ctx2, trace2)"
          by (metis prod_cases3)
        note i2 = runPlugins_calm [OF c1 S(2) r2]
        have k2: "D \<Longrightarrow> truthy (dryRun (ctxOptions ctx2))"
          using K k1 runPlugins_keeps [OF _ _ r2] by simp
        show ?thesis
        proof (cases o2)
          case (Inl error)
          then have "out = Inl error" "trace = trace2"
            using R by (simp_all add: tryRelease_def r1 o1 an rel r2)
          with i2 Inl show ?thesis by simp
        next
          case o2: (Inr x2)
          with i2 have c2: "calm S trace2" by simp
          obtain o3 ctx3 trace3 where
            r3: "runPlugins GenerateNotes (generateNotes collection) None (ctx2, trace2)
                   = (o3, ctx3, trace3)"
            by (metis prod_cases3)
          note i3 = runPlugins_calm [OF c2 S(3) r3]
          have k3: "D \<Longrightarrow> truthy (dryRun (ctxOptions ctx3))"
            using K k2 runPlugins_keeps [OF _ _ r3] by simp
          show ?thesis
          proof (cases o3)
            case (Inl error)
            then have "out = Inl error" "trace = trace3"
              using R by (simp_all add: tryRelease_def r1 o1 an rel r2 o2 r3)
            with i3 Inl show ?thesis by simp
          next
            case o3: (Inr generated)
            with i3 have c3: "calm S trace3" by simp
            show ?thesis
            proof (cases "nextRelease ctx3")
              case None
              then have "out = Inl (Error ''TypeError'')" "trace = trace3"
                using R by (simp_all add: tryRelease_def r1 o1 an rel r2 o2 r3 o3)
              with c3 show ?thesis by (simp add: broken_def)
            next
              case nr: (Some release)
              define ctx4 where "ctx4 = ctx3 \<lparr> nextRelease :=
                Some (release \<lparr> notes := Some (joinNotes (filter (\<lambda>n. n \<noteq> []) generated)) \<rparr>) \<rparr>"
              have o4: "ctxOptions ctx4 = ctxOptions ctx3" by (simp add: ctx4_def)
              show ?thesis
              proof (cases "truthy (dryRun (ctxOptions ctx3))")
                case True
                then have "\<exists>r. out = Inr (DryRun r)" "trace = trace3"
                  using R by (auto simp: tryRelease_def r1 o1 an rel r2 o2 r3 o3 nr Let_def)
                with c3 show ?thesis by auto
              next
                case dry: False
                with k3 have nd: "\<not> D" by blast
                with D have pr: "Prepare \<in> S" and pu: "Publish \<in> S" and su: "Success \<in> S"
                  by simp_all
                obtain o5 ctx5 trace5 where
                  r5: "runPlugins Prepare (prepare collection) None (ctx4, trace3) = (o5, ctx5, trace5)"
                  by (metis prod_cases3)
                note i5 = runPlugins_calm [OF c3 pr r5]
                show ?thesis
                proof (cases o5)
                  case (Inl error)
                  then have "out = Inl error" "trace = trace5"
                    using R r5 unfolding ctx4_def
                    by (simp_all add: tryRelease_def r1 o1 an rel r2 o2 r3 o3 nr dry Let_def)
                  with i5 Inl show ?thesis by simp
                next
                  case o5: (Inr x5)
                  with i5 have c5: "calm S trace5" by simp
                  obtain o6 ctx6 trace6 where
                    r6: "runPlugins Publish (publish collection) None (ctx5, trace5)
                           = (o6, ctx6, trace6)"
                    by (metis prod_cases3)
                  note i6 = runPlugins_calm [OF c5 pu r6]
                  show ?thesis
                  proof (cases o6)
                    case (Inl error)
                    then have "out = Inl error" "trace = trace6"
                      using R r5 unfolding ctx4_def
                      by (simp_all add: tryRelease_def r1 o1 an rel r2 o2 r3 o3 nr dry o5 r6 Let_def)
                    with i6 Inl show ?thesis by simp
                  next
                    case o6: (Inr publishResult)
                    with i6 have c6: "calm S trace6" by simp
                    obtain o7 ctx7 trace7 where
                      r7: "runPlugins Success (success collection) None (ctx6, trace6)
                             = (o7, ctx7, trace7)"
                      by (metis prod_cases3)
                    note i7 = runPlugins_calm [OF c6 su r7]
                    show ?thesis
                    proof (cases o7)
                      case (Inl error)
                      then have "out = Inl error" "trace = trace7"
                        using R r5 unfolding ctx4_def
                        by (simp_all add: tryRelease_def r1 o1 an rel r2 o2 r3 o3 nr dry o5 r6 o6 r7
                            Let_def)
                      with i7 Inl show ?thesis by simp
                    next
                      case o7: (Inr x7)
                      then have "trace = trace7"
                        using R r5 unfolding ctx4_def
                        by (simp_all add: tryRelease_def r1 o1 an rel r2 o2 r3 o3 nr dry o5 r6 o6 r7
                            Let_def)
                      moreover have "\<exists>r. out = Inr r"
                        using R r5 o7 unfolding ctx4_def
                        by (auto simp: tryRelease_def r1 o1 an rel r2 o2 r3 o3 nr dry o5 r6 o6 r7
                            Let_def)
                      ultimately show ?thesis using i7 o7 nd by auto
                    qed
                  qed
                qed
              qed
            qed
          qed
        qed
      qed
    qed
  qed
qed

lemma failureEvents_stage: "p \<in> set (failureEvents error k lastRaise) \<Longrightarrow> evStage p = Fail"
  by (auto simp: failureEvents_def)

lemma calverRelease_cases:
  assumes "calverRelease config collection analyzeStep context = (out, ctxF, trace)"
  obtains (returned) r where "out = Inr r"
      "tryRelease collection analyzeStep (context \<lparr> ctxOptions := config \<rparr>) = (Inr r, ctxF, trace)"
    | (raised) e ctx1 trace1 k lastRaise where
      "tryRelease collection analyzeStep (context \<lparr> ctxOptions := config \<rparr>) = (Inl e, ctx1, trace1)"
      "trace = trace1 @ failureEvents e k lastRaise" "k \<le> length (fail collection)"
      "\<forall>j<k. answers (fail collection ! j) (Some e) (if Suc j = k then lastRaise else None)"
      "case lastRaise of
         None \<Rightarrow> k = length (fail collection) \<and> out = Inl e
       | Some failError \<Rightarrow> 0 < k \<and> out = Inl failError"
proof -
  obtain o1 ctx1 trace1 where
    t: "tryRelease collection analyzeStep (context \<lparr> ctxOptions := config \<rparr>) = (o1, ctx1, trace1)"
    by (metis prod_cases3)
  show ?thesis
  proof (cases o1)
    case (Inr r)
    with assms t have "out = Inr r" "ctxF = ctx1" "trace = trace1"
      by (simp_all add: calverRelease_def)
    with t Inr show ?thesis using returned by simp
  next
    case (Inl e)
    with assms t have f: "failRun collection e (ctx1, trace1) = (out, ctxF, trace)"
      by (simp add: calverRelease_def)
    from failRun_events [OF f] obtain k lastRaise where
      "trace = trace1 @ failureEvents e k lastRaise" "k \<le> length (fail collection)"
      "\<forall>j<k. answers (fail collection ! j) (Some e) (if Suc j = k then lastRaise else None)"
      "case lastRaise of
         None \<Rightarrow> k = length (fail collection) \<and> out = Inl e
       | Some failError \<Rightarrow> 0 < k \<and> out = Inl failError"
      by blast
    with t Inl show ?thesis using raised by simp
  qed
qed

text \<open>
  Claim C1, as amended. Take any run and any invocation in it of a hook of a step other
  than the failure step that raised an error. Then the trace of the run is: invocations
  of hooks of such steps that all returned, the raising invocation, and then the first
  \<open>k\<close> failure hooks, invoked in registration order, each with the error that was raised,
  and nothing else. Every invoked failure hook but the last has answered by returning. If
  the last one returned too, every registered failure hook was invoked and the run ends
  raising the triggering error; if it raised, the failure hooks after it were not invoked
  and the run ends raising the error of that failure hook.
\<close>

theorem failure_hooks_until_first_raise:
  assumes "calverRelease config collection analyzeStep context = (out, ctxF, trace)"
    and "ev \<in> set trace" and "evStage ev \<noteq> Fail" and "evRaised ev = Some error"
  shows "\<exists>before k lastRaise.
           trace = before @ ev # failureEvents error k lastRaise
         \<and> (\<forall>p\<in>set before. evStage p \<noteq> Fail \<and> evRaised p = None)
         \<and> k \<le> length (fail collection)
         \<and> (\<forall>j<k. answers (fail collection ! j) (Some error)
               (if Suc j = k then lastRaise else None))
         \<and> (case lastRaise of
              None \<Rightarrow> k = length (fail collection) \<and> out = Inl error
            | Some failError \<Rightarrow> 0 < k \<and> out = Inl failError)"
proof -
  let ?S = "UNIV - {Fail}"
  have S: "VerifyConditions \<in> ?S" "VerifyRelease \<in> ?S" "GenerateNotes \<in> ?S"
    by simp_all
  note shape = tryRelease_shape [where D = False and S = ?S, OF S]
  from assms(1) show ?thesis
  proof (cases rule: calverRelease_cases)
    case (returned r)
    from shape [OF _ _ returned(2)] have "calm ?S trace" by simp
    with assms(2,4) show ?thesis by (auto simp: calm_def)
  next
    case (raised e ctx1 trace1 k lastRaise)
    from shape [OF _ _ raised(1)] have b: "broken ?S e trace1" by simp
    have "ev \<in> set trace1"
      using assms(2,3) raised(2) failureEvents_stage [of ev e k lastRaise] by auto
    moreover have "\<not> calm ?S trace1 \<or> ev \<notin> set trace1"
      using assms(4) by (auto simp: calm_def)
    ultimately obtain before ev' where t: "trace1 = before @ [ev']" and c: "calm ?S before"
      and e: "evRaised ev' = Some e"
      using b unfolding broken_def by blast
    have "ev \<notin> set before" using c assms(4) by (auto simp: calm_def)
    with \<open>ev \<in> set trace1\<close> t have "ev' = ev" by simp
    with e assms(4) have "e = error" by simp
    have "\<forall>p\<in>set before. evStage p \<noteq> Fail \<and> evRaised p = None"
      using c by (simp add: calm_def)
    moreover have "trace = before @ ev # failureEvents error k lastRaise"
      using raised(2) t \<open>ev' = ev\<close> \<open>e = error\<close> by simp
    ultimately show ?thesis using raised(3,4,5) \<open>e = error\<close> by blast
  qed
qed

theorem failure_hooks_until_first_raise_witness:
  "calverRelease defaults quietFailPlugins sampleStep emptyContext
     = (Inl (Error ''no token''), \<lparr> ctxOptions = defaults, nextRelease = None \<rparr>,
        [Event VerifyConditions 0 None None,
         Event VerifyConditions 1 None (Some (Error ''no token'')),
         Event Fail 0 (Some (Error ''no token'')) None,
         Event Fail 1 (Some (Error ''no token'')) None])
   \<and> (\<exists>before k lastRaise.
        [Event VerifyConditions 0 None None,
         Event VerifyConditions 1 None (Some (Error ''no token'')),
         Event Fail 0 (Some (Error ''no token'')) None,
         Event Fail 1 (Some (Error ''no token'')) None]
        = before @ Event VerifyConditions 1 None (Some (Error ''no token''))
            # failureEvents (Error ''no token'') k lastRaise
        \<and> k \<le> length (fail quietFailPlugins)
        \<and> (case lastRaise of
              None \<Rightarrow> k = length (fail quietFailPlugins)
            | Some failError \<Rightarrow> 0 < k \<and> Error ''no token'' = failError))"
proof -
  have r: "calverRelease defaults quietFailPlugins sampleStep emptyContext
     = (Inl (Error ''no token''), \<lparr> ctxOptions = defaults, nextRelease = None \<rparr>,
        [Event VerifyConditions 0 None None,
         Event VerifyConditions 1 None (Some (Error ''no token'')),
         Event Fail 0 (Some (Error ''no token'')) None,
         Event Fail 1 (Some (Error ''no token'')) None])"
    by (simp add: calverRelease_def tryRelease_def failRun_def runPlugins_def
        quietFailPlugins_def samplePlugins_def quiet_def raising_def emptyContext_def)
  from failure_hooks_until_first_raise [OF r,
      of "Event VerifyConditions 1 None (Some (Error ''no token''))" "Error ''no token''"]
  obtain before k lastRaise where
    "[Event VerifyConditions 0 None None,
         Event VerifyConditions 1 None (Some (Error ''no token'')),
         Event Fail 0 (Some (Error ''no token'')) None,
         Event Fail 1 (Some (Error ''no token'')) None]
        = before @ Event VerifyConditions 1 None (Some (Error ''no token''))
            # failureEvents (Error ''no token'') k lastRaise"
    "k \<le> length (fail quietFailPlugins)"
    "case lastRaise of
              None \<Rightarrow> k = length (fail quietFailPlugins) \<and> Inl (Error ''no token'') = (Inl (Error ''no token'') :: Error + CalverReleaseResult)
            | Some failError \<Rightarrow> 0 < k \<and> Inl (Error ''no token'') = (Inl failError :: Error + CalverReleaseResult)"
    by auto
  then have "[Event VerifyConditions 0 None None,
         Event VerifyConditions 1 None (Some (Error ''no token'')),
         Event Fail 0 (Some (Error ''no token'')) None,
         Event Fail 1 (Some (Error ''no token'')) None]
        = before @ Event VerifyConditions 1 None (Some (Error ''no token''))
            # failureEvents (Error ''no token'') k lastRaise
        \<and> k \<le> length (fail quietFailPlugins)
        \<and> (case lastRaise of
              None \<Rightarrow> k = length (fail quietFailPlugins)
            | Some failError \<Rightarrow> 0 < k \<and> Error ''no token'' = failError)"
    by (cases lastRaise) simp_all
  with r show ?thesis by blast
qed

text \<open>
  Claim C1 as stated fails: \<open>runPlugins\<close> raises the error of a hook again, for failure
  hooks as for all others. With two failure hooks of which the first raises, a run whose
  second condition check raises \<open>no token\<close> invokes the first failure hook only and hands
  the caller the error of that hook.
\<close>

theorem raising_failure_hook_masks_error:
  "calverRelease defaults samplePlugins sampleStep emptyContext
     = (Inl (Error ''notification failed''), \<lparr> ctxOptions = defaults, nextRelease = None \<rparr>,
        [Event VerifyConditions 0 None None,
         Event VerifyConditions 1 None (Some (Error ''no token'')),
         Event Fail 0 (Some (Error ''no token'')) (Some (Error ''notification failed''))])
   \<and> length (fail samplePlugins) = 2"
  by (simp add: calverRelease_def tryRelease_def failRun_def runPlugins_def samplePlugins_def
      quiet_def raising_def emptyContext_def)

lemma dry_run_no_side_effects:
  assumes "truthy (dryRun config)"
    and "\<forall>hook\<in>set (verifyConditions collection). keepsDryRun hook"
    and "\<forall>hook\<in>set (verifyRelease collection). keepsDryRun hook"
    and "\<forall>hook\<in>set (generateNotes collection). keepsDryRun hook"
    and "calverRelease config collection analyzeStep context = (out, ctxF, trace)"
  shows "(\<forall>ev\<in>set trace. evStage ev \<in> {VerifyConditions, VerifyRelease, GenerateNotes, Fail})
       \<and> (\<forall>release releases. out \<noteq> Inr (Released release releases))"
proof -
  let ?S = "{VerifyConditions, VerifyRelease, GenerateNotes}"
  have S: "VerifyConditions \<in> ?S" "VerifyRelease \<in> ?S" "GenerateNotes \<in> ?S"
    and D: "\<not> True \<longrightarrow> Prepare \<in> ?S \<and> Publish \<in> ?S \<and> Success \<in> ?S"
    by simp_all
  have K: "True \<longrightarrow> truthy (dryRun (ctxOptions (context \<lparr> ctxOptions := config \<rparr>)))
        \<and> (\<forall>hook\<in>set (verifyConditions collection). keepsDryRun hook)
        \<and> (\<forall>hook\<in>set (verifyRelease collection). keepsDryRun hook)
        \<and> (\<forall>hook\<in>set (generateNotes collection). keepsDryRun hook)"
    using assms(1-4) by simp
  from assms(5) show ?thesis
  proof (cases rule: calverRelease_cases)
    case (returned r)
    from tryRelease_shape [where D = True, OF S D K returned(2)] returned(1) show ?thesis
      by (auto simp: calm_def)
  next
    case (raised e ctx1 trace1 k lastRaise)
    from tryRelease_shape [where D = True, OF S D K raised(1)] have "broken ?S e trace1" by simp
    then have "\<forall>ev\<in>set trace1. evStage ev \<in> ?S" by (auto simp: broken_def calm_def)
    moreover have "\<exists>x. out = Inl x" using raised(5) by (cases lastRaise) simp_all
    ultimately show ?thesis
      using raised(2) failureEvents_stage [of _ e k lastRaise] by auto
  qed
qed

text \<open>
  Claim C9, as amended. Take a run configured as a dry run in which every hook of the
  condition checks, the release checks and the notes keeps the dry run. Then no prepare,
  publish or success hook is ever invoked and the run never ends as a release. When the
  run gets through the condition checks, the analysis asks for a release, the release
  checks pass and the notes hooks return, the run ends there: it returns the preview with
  the aggregated notes attached, and the last hooks invoked are the notes hooks.
\<close>

theorem dry_run_stops_after_notes:
  assumes "truthy (dryRun config)"
    and "\<forall>hook\<in>set (verifyConditions collection). keepsDryRun hook"
    and "\<forall>hook\<in>set (verifyRelease collection). keepsDryRun hook"
    and "\<forall>hook\<in>set (generateNotes collection). keepsDryRun hook"
  shows "(\<forall>ev\<in>set (snd (snd (calverRelease config collection analyzeStep context))).
            evStage ev \<notin> {Prepare, Publish, Success})
       \<and> (\<forall>release releases. fst (calverRelease config collection analyzeStep context)
            \<noteq> Inr (Released release releases))
       \<and> (runPlugins VerifyConditions (verifyConditions collection) None
               (context \<lparr> ctxOptions := config \<rparr>, [])
             = (Inr r1, ctx1, trace1)
           \<and> analyzeStep ctx1 = Inr analysis \<and> stepShouldRelease analysis
           \<and> runPlugins VerifyRelease (verifyRelease collection) None
               (ctx1 \<lparr> nextRelease := stepNextRelease analysis \<rparr>, trace1) = (Inr r2, st2)
           \<and> runPlugins GenerateNotes (generateNotes collection) None st2
               = (Inr generated, ctx3, trace3)
           \<and> nextRelease ctx3 = Some release
          \<longrightarrow> calverRelease config collection analyzeStep context
              = (Inr (DryRun (Some (release
                    \<lparr> notes := Some (joinNotes (filter (\<lambda>n. n \<noteq> []) generated)) \<rparr>))),
                 ctx3 \<lparr> nextRelease := Some (release
                    \<lparr> notes := Some (joinNotes (filter (\<lambda>n. n \<noteq> []) generated)) \<rparr>) \<rparr>,
                 trace3))"
proof (intro conjI impI)
  obtain out ctxF trace where
    r: "calverRelease config collection analyzeStep context = (out, ctxF, trace)"
    by (metis prod_cases3)
  note n = dry_run_no_side_effects [OF assms r]
  show "\<forall>ev\<in>set (snd (snd (calverRelease config collection analyzeStep context))).
            evStage ev \<notin> {Prepare, Publish, Success}"
    using n r by auto
  show "\<forall>release releases. fst (calverRelease config collection analyzeStep context)
            \<noteq> Inr (Released release releases)"
    using n r by simp
next
  assume a: "runPlugins VerifyConditions (verifyConditions collection) None
               (context \<lparr> ctxOptions := config \<rparr>, [])
             = (Inr r1, ctx1, trace1)
           \<and> analyzeStep ctx1 = Inr analysis \<and> stepShouldRelease analysis
           \<and> runPlugins VerifyRelease (verifyRelease collection) None
               (ctx1 \<lparr> nextRelease := stepNextRelease analysis \<rparr>, trace1) = (Inr r2, st2)
           \<and> runPlugins GenerateNotes (generateNotes collection) None st2
               = (Inr generated, ctx3, trace3)
           \<and> nextRelease ctx3 = Some release"
  obtain ctx2 trace2 where st2: "st2 = (ctx2, trace2)" by (cases st2)
  from a have a1: "runPlugins VerifyConditions (verifyConditions collection) None
               (context \<lparr> ctxOptions := config \<rparr>, []) = (Inr r1, ctx1, trace1)"
    and a2: "runPlugins VerifyRelease (verifyRelease collection) None
               (ctx1 \<lparr> nextRelease := stepNextRelease analysis \<rparr>, trace1) = (Inr r2, ctx2, trace2)"
    and a3: "runPlugins GenerateNotes (generateNotes collection) None (ctx2, trace2)
               = (Inr generated, ctx3, trace3)"
    using st2 by simp_all
  have k0: "truthy (dryRun (ctxOptions (context \<lparr> ctxOptions := config \<rparr>)))"
    using assms(1) by simp
  note k1 = runPlugins_keeps [OF assms(2) k0 a1]
  then have k1': "truthy (dryRun (ctxOptions (ctx1 \<lparr> nextRelease := stepNextRelease analysis \<rparr>)))"
    by simp
  note k2 = runPlugins_keeps [OF assms(3) k1' a2]
  note k3 = runPlugins_keeps [OF assms(4) k2 a3]
  show "calverRelease config collection analyzeStep context
              = (Inr (DryRun (Some (release
                    \<lparr> notes := Some (joinNotes (filter (\<lambda>n. n \<noteq> []) generated)) \<rparr>))),
                 ctx3 \<lparr> nextRelease := Some (release
                    \<lparr> notes := Some (joinNotes (filter (\<lambda>n. n \<noteq> []) generated)) \<rparr>) \<rparr>,
                 trace3)"
    using a k3 by (simp add: calverRelease_def tryRelease_def Let_def)
qed

theorem dry_run_stops_after_notes_witness:
  "truthy (dryRun dryConfig)
   \<and> keepsDryRun (quiet :: unit Hook) \<and> keepsDryRun (noting ''## notes'')
   \<and> calverRelease dryConfig passingPlugins sampleStep emptyContext
     = (Inr (DryRun (Some \<lparr> version = ''25.08.1'', notes = Some ''## notes'' \<rparr>)),
        \<lparr> ctxOptions = dryConfig,
          nextRelease = Some \<lparr> version = ''25.08.1'', notes = Some ''## notes'' \<rparr> \<rparr>,
        [Event VerifyConditions 0 None None, Event GenerateNotes 0 None None])
   \<and> prepare passingPlugins \<noteq> [] \<and> success passingPlugins \<noteq> []
   \<and> Event Prepare 0 None None
       \<notin> set (snd (snd (calverRelease dryConfig passingPlugins sampleStep emptyContext)))"
proof -
  have d: "truthy (dryRun dryConfig)"
    by (simp add: dryConfig_def getConfig_def spread_def noOptions_def defaults_def truthy_def)
  have q: "keepsDryRun (quiet :: unit Hook)" and n: "keepsDryRun (noting ''## notes'')"
    by (simp_all add: keepsDryRun_def quiet_def noting_def)
  have r: "calverRelease dryConfig passingPlugins sampleStep emptyContext
     = (Inr (DryRun (Some \<lparr> version = ''25.08.1'', notes = Some ''## notes'' \<rparr>)),
        \<lparr> ctxOptions = dryConfig,
          nextRelease = Some \<lparr> version = ''25.08.1'', notes = Some ''## notes'' \<rparr> \<rparr>,
        [Event VerifyConditions 0 None None, Event GenerateNotes 0 None None])"
    using d by (simp add: calverRelease_def tryRelease_def runPlugins_def passingPlugins_def
        samplePlugins_def quiet_def noting_def sampleStep_def emptyContext_def)
  have p: "prepare passingPlugins \<noteq> [] \<and> success passingPlugins \<noteq> []"
    by (simp add: passingPlugins_def samplePlugins_def)
  have h: "\<forall>hook\<in>set (verifyConditions passingPlugins). keepsDryRun hook"
    "\<forall>hook\<in>set (verifyRelease passingPlugins). keepsDryRun hook"
    "\<forall>hook\<in>set (generateNotes passingPlugins). keepsDryRun hook"
    using q n by (simp_all add: passingPlugins_def samplePlugins_def)
  from dry_run_stops_after_notes [OF d h, of sampleStep emptyContext]
  have "\<forall>ev\<in>set (snd (snd (calverRelease dryConfig passingPlugins sampleStep emptyContext))).
            evStage ev \<notin> {Prepare, Publish, Success}"
    by blast
  then have "Event Prepare 0 None None
       \<notin> set (snd (snd (calverRelease dryConfig passingPlugins sampleStep emptyContext)))"
    by auto
  with d q n r p show ?thesis by blast
qed

text \<open>
  Claim C9 as stated fails. The configuration whose \<open>dryRun\<close> field is tested after the
  notes is the object that every hook has received as the options of its context. In a
  run configured as a dry run whose condition check sets that field to false, the test
  fails: the prepare and success hooks are invoked and the run ends as a release.
\<close>

theorem dry_run_switched_off_by_hook:
  "truthy (dryRun dryConfig)
   \<and> calverRelease dryConfig switchingPlugins sampleStep emptyContext
     = (Inr (Released (Some \<lparr> version = ''25.08.1'', notes = Some ''## notes'' \<rparr>) []),
        \<lparr> ctxOptions = dryConfig \<lparr> dryRun := Some False \<rparr>,
          nextRelease = Some \<lparr> version = ''25.08.1'', notes = Some ''## notes'' \<rparr> \<rparr>,
        [Event VerifyConditions 0 None None, Event GenerateNotes 0 None None,
         Event Prepare 0 None None, Event Success 0 None None])"
  by (simp add: calverRelease_def tryRelease_def runPlugins_def switchingPlugins_def
      samplePlugins_def quiet_def noting_def unsetDryRun_def sampleStep_def emptyContext_def
      dryConfig_def getConfig_def spread_def noOptions_def defaults_def truthy_def)

end
